theory Spec2Isabelle
  imports Main "HOL-Library.Word" "HOL-Library.Sublist" "HOL-Library.Multiset"
begin

unbundle bit_operations_syntax

section \<open>Vulkan values used by the samples\<close>

text \<open>
  Handles are opaque numbers, \<open>VK_NULL_HANDLE\<close> is 0. Counts, extents and flags are the
  32-bit unsigned integers of the C++ sources. Queue-family indices are natural numbers
  compared with the sentinel \<open>UINT32_MAX\<close>; the family count is itself a \<open>uint32_t\<close>, so
  the lists the code can receive have at most \<open>UINT32_MAX\<close> entries.
\<close>

type_synonym uint32_t = "32 word"
type_synonym handle = nat
type_synonym VkFormat = nat
type_synonym VkColorSpaceKHR = nat

definition VK_NULL_HANDLE :: handle where
  "VK_NULL_HANDLE = 0"

definition UINT32_MAX :: nat where
  "UINT32_MAX = 4294967295"

definition VK_TRUE :: uint32_t where
  "VK_TRUE = 1"

definition VK_QUEUE_GRAPHICS_BIT :: uint32_t where
  "VK_QUEUE_GRAPHICS_BIT = 1"

definition VK_FORMAT_UNDEFINED :: VkFormat where
  "VK_FORMAT_UNDEFINED = 0"

definition VK_FORMAT_B8G8R8A8_UNORM :: VkFormat where
  "VK_FORMAT_B8G8R8A8_UNORM = 44"

definition VK_COLORSPACE_SRGB_NONLINEAR_KHR :: VkColorSpaceKHR where
  "VK_COLORSPACE_SRGB_NONLINEAR_KHR = 0"

datatype VkPresentModeKHR =
    VK_PRESENT_MODE_IMMEDIATE_KHR
  | VK_PRESENT_MODE_MAILBOX_KHR
  | VK_PRESENT_MODE_FIFO_KHR
  | VK_PRESENT_MODE_FIFO_RELAXED_KHR

datatype VkSharingMode = VK_SHARING_MODE_EXCLUSIVE | VK_SHARING_MODE_CONCURRENT

record VkExtent2D =
  width :: uint32_t
  height :: uint32_t

record VkSurfaceCapabilitiesKHR =
  minImageCount :: uint32_t
  maxImageCount :: uint32_t
  currentExtent :: VkExtent2D
  minImageExtent :: VkExtent2D
  maxImageExtent :: VkExtent2D

record VkSurfaceFormatKHR =
  format :: VkFormat
  colorSpace :: VkColorSpaceKHR

text \<open>
  One entry per queue family: \<open>queueProps[i].queueFlags\<close> together with the
  \<open>supportsPresent[i]\<close> answer of the driver for the surface.
\<close>

record queue_family =
  queueFlags :: uint32_t
  supportsPresent :: uint32_t

text \<open>What the driver reports for the physical device and the surface.\<close>

record surface_report =
  families :: "queue_family list"
  formats :: "VkSurfaceFormatKHR list"
  presentModes :: "VkPresentModeKHR list"
  caps :: VkSurfaceCapabilitiesKHR

text \<open>
  The fields of \<open>VkSwapchainCreateInfoKHR\<close> that the selection code computes.
  \<open>pQueueFamilyIndices = NULL\<close> is the empty list.
\<close>

record VkSwapchainCreateInfoKHR =
  ci_minImageCount :: uint32_t
  ci_imageFormat :: VkFormat
  ci_imageColorSpace :: VkColorSpaceKHR
  ci_imageExtent :: VkExtent2D
  ci_imageSharingMode :: VkSharingMode
  ci_queueFamilyIndexCount :: nat
  ci_pQueueFamilyIndices :: "nat list"
  ci_presentMode :: VkPresentModeKHR
  ci_oldSwapchain :: handle

text \<open>
  The ways the process ends instead of returning: \<open>Exit\<close> is a printed diagnostic followed
  by \<open>exit\<close> (\<open>vks::tools::exitFatal\<close>, or \<open>std::cout\<close> and \<open>exit(-1)\<close>); \<open>Abort\<close> is a
  failed \<open>assert\<close>, carrying the asserted expression that the C runtime prints.
\<close>

datatype fatal = Exit string | Abort string

section \<open>Queue-family search (test1.cpp 189-214, VulkanSwapChain.hpp 178-211)\<close>

text \<open>
  First loop: remember the first graphics family, stop at the first family that has the
  graphics bit and presents. The arguments are the families not yet visited, the loop
  index and the graphics index found so far; the result is the pair (graphics, present).
\<close>

fun search_both :: "queue_family list \<Rightarrow> nat \<Rightarrow> nat \<Rightarrow> nat \<times> nat" where
  "search_both [] i g = (g, UINT32_MAX)"
| "search_both (q # qs) i g =
     (if queueFlags q AND VK_QUEUE_GRAPHICS_BIT \<noteq> 0 then
        (let g' = (if g = UINT32_MAX then i else g) in
         if supportsPresent q = VK_TRUE then (i, i)
         else search_both qs (Suc i) g')
      else search_both qs (Suc i) g)"

text \<open>Second loop: the first family that presents, whatever its flags.\<close>

fun search_present :: "queue_family list \<Rightarrow> nat \<Rightarrow> nat" where
  "search_present [] i = UINT32_MAX"
| "search_present (q # qs) i =
     (if supportsPresent q = VK_TRUE then i else search_present qs (Suc i))"

definition find_queues :: "queue_family list \<Rightarrow> nat \<times> nat" where
  "find_queues qs =
     (let (g, p) = search_both qs 0 UINT32_MAX in
      if p = UINT32_MAX then (g, search_present qs 0) else (g, p))"

section \<open>test03: \<open>sample_main\<close> of test1.cpp\<close>

text \<open>Lines 238-247: the format written to \<open>info.format\<close>.\<close>

definition test1_format :: "VkSurfaceFormatKHR list \<Rightarrow> fatal + VkFormat" where
  "test1_format fs =
     (if length fs = 1 \<and> format (fs ! 0) = VK_FORMAT_UNDEFINED
      then Inr VK_FORMAT_B8G8R8A8_UNORM
      else if \<not> length fs \<ge> 1 then Inl (Abort ''formatCount >= 1'')
      else Inr (format (fs ! 0)))"

text \<open>Lines 267-293: \<open>swapchainExtent\<close> from the requested \<open>info.width\<close>, \<open>info.height\<close>.\<close>

definition test1_extent :: "VkSurfaceCapabilitiesKHR \<Rightarrow> uint32_t \<Rightarrow> uint32_t \<Rightarrow> VkExtent2D" where
  "test1_extent c info_width info_height =
     (if width (currentExtent c) = 0xFFFFFFFF then
        \<lparr> width =
            (if info_width < width (minImageExtent c) then width (minImageExtent c)
             else if info_width > width (maxImageExtent c) then width (maxImageExtent c)
             else info_width),
          height =
            (if info_height < height (minImageExtent c) then height (minImageExtent c)
             else if info_height > height (maxImageExtent c) then height (maxImageExtent c)
             else info_height) \<rparr>
      else currentExtent c)"

text \<open>
  Lines 189-344, from the queue search to the filled \<open>swapchain_ci\<close>. The driver calls
  in between are taken to return \<open>VK_SUCCESS\<close>.
\<close>

definition sample_main ::
  "surface_report \<Rightarrow> uint32_t \<Rightarrow> uint32_t \<Rightarrow> fatal + VkSwapchainCreateInfoKHR" where
  "sample_main r info_width info_height =
     (let (graphics_queue_family_index, present_queue_family_index) = find_queues (families r) in
      if graphics_queue_family_index = UINT32_MAX \<or> present_queue_family_index = UINT32_MAX
      then Inl (Exit ''Could not find a queues for graphics and present'')
      else
        case test1_format (formats r) of
          Inl e \<Rightarrow> Inl e
        | Inr info_format \<Rightarrow>
            (let swapchainExtent = test1_extent (caps r) info_width info_height;
                 desiredNumberOfSwapChainImages = minImageCount (caps r);
                 swapchain_ci =
                   \<lparr> ci_minImageCount = desiredNumberOfSwapChainImages,
                     ci_imageFormat = info_format,
                     ci_imageColorSpace = VK_COLORSPACE_SRGB_NONLINEAR_KHR,
                     ci_imageExtent = swapchainExtent,
                     ci_imageSharingMode = VK_SHARING_MODE_EXCLUSIVE,
                     ci_queueFamilyIndexCount = 0,
                     ci_pQueueFamilyIndices = [],
                     ci_presentMode = VK_PRESENT_MODE_FIFO_KHR,
                     ci_oldSwapchain = VK_NULL_HANDLE \<rparr>
             in Inr (if graphics_queue_family_index \<noteq> present_queue_family_index
                     then swapchain_ci
                            \<lparr> ci_imageSharingMode := VK_SHARING_MODE_CONCURRENT,
                              ci_queueFamilyIndexCount := 2,
                              ci_pQueueFamilyIndices :=
                                [graphics_queue_family_index, present_queue_family_index] \<rparr>
                     else swapchain_ci)))"

section \<open>test04: class \<open>VulkanSwapChain\<close>\<close>

record SwapChainBuffer =
  image :: handle
  view :: handle

text \<open>
  The members of the class that the modelled methods read or write. \<open>imageCount\<close> is the
  count last returned by \<open>fpGetSwapchainImagesKHR\<close>.
\<close>

record VulkanSwapChain =
  surface :: handle
  colorFormat :: VkFormat
  sc_colorSpace :: VkColorSpaceKHR
  swapChain :: handle
  imageCount :: nat
  images :: "handle list"
  buffers :: "SwapChainBuffer list"
  queueNodeIndex :: nat

text \<open>The driver calls that create or destroy swapchain resources, in the order issued.\<close>

datatype driver_call =
    CreateSwapchainKHR VkSwapchainCreateInfoKHR handle
  | DestroyImageView handle
  | DestroySwapchainKHR handle
  | DestroySurfaceKHR handle
  | GetSwapchainImagesKHR handle
  | CreateImageView handle handle

text \<open>
  What the driver hands back during \<open>create\<close>: the new swapchain handle, its images, and
  the view handle it creates for an image.
\<close>

record driver_reply =
  new_swapChain :: handle
  new_images :: "handle list"
  new_view :: "handle \<Rightarrow> handle"

text \<open>
  Modelled from the spec: \<open>vks::tools::exitFatal\<close> is declared in VulkanTools.h, which is
  not among the sources; "fatal conditions print a diagnostic and terminate", so a call
  is the value \<open>Exit\<close> with its message.
\<close>

definition exitFatal :: "string \<Rightarrow> string \<Rightarrow> fatal + 'a" where
  "exitFatal message caption = Inl (Exit message)"

text \<open>
  \<open>initSurface\<close>, lines 161-268, after the platform call has produced the surface handle
  \<open>created\<close>.
\<close>

definition initSurface ::
  "surface_report \<Rightarrow> handle \<Rightarrow> VulkanSwapChain \<Rightarrow> fatal + VulkanSwapChain" where
  "initSurface r created s =
     (let s = s\<lparr>surface := created\<rparr>;
          surfaceFormats = formats r in
      if \<not> length (families r) \<ge> 1 then Inl (Abort ''queueCount >= 1'')
      else
        (let (graphicsQueueNodeIndex, presentQueueNodeIndex) = find_queues (families r) in
         if graphicsQueueNodeIndex = UINT32_MAX \<or> presentQueueNodeIndex = UINT32_MAX
         then exitFatal ''Could not find a graphics and/or presenting queue!'' ''Fatal error''
         else if graphicsQueueNodeIndex \<noteq> presentQueueNodeIndex
         then exitFatal ''Separate graphics and presenting queues are not supported yet!''
                ''Fatal error''
         else if \<not> length surfaceFormats > 0 then Inl (Abort ''formatCount > 0'')
         else
           (let s = s\<lparr>queueNodeIndex := graphicsQueueNodeIndex\<rparr> in
            if length surfaceFormats = 1 \<and> format (surfaceFormats ! 0) = VK_FORMAT_UNDEFINED
            then Inr (s\<lparr>colorFormat := VK_FORMAT_B8G8R8A8_UNORM,
                        sc_colorSpace := colorSpace (surfaceFormats ! 0)\<rparr>)
            else
              (case find (\<lambda>surfaceFormat. format surfaceFormat = VK_FORMAT_B8G8R8A8_UNORM)
                      surfaceFormats of
                 Some surfaceFormat \<Rightarrow>
                   Inr (s\<lparr>colorFormat := format surfaceFormat,
                           sc_colorSpace := colorSpace surfaceFormat\<rparr>)
               | None \<Rightarrow>
                   Inr (s\<lparr>colorFormat := format (surfaceFormats ! 0),
                           sc_colorSpace := colorSpace (surfaceFormats ! 0)\<rparr>)))))"

text \<open>Lines 349-363: the loop over the present modes, started with FIFO.\<close>

fun pick_present_mode :: "VkPresentModeKHR list \<Rightarrow> VkPresentModeKHR \<Rightarrow> VkPresentModeKHR" where
  "pick_present_mode [] swapchainPresentMode = swapchainPresentMode"
| "pick_present_mode (m # ms) swapchainPresentMode =
     (if m = VK_PRESENT_MODE_MAILBOX_KHR then VK_PRESENT_MODE_MAILBOX_KHR
      else if swapchainPresentMode \<noteq> VK_PRESENT_MODE_MAILBOX_KHR \<and> m = VK_PRESENT_MODE_IMMEDIATE_KHR
      then pick_present_mode ms VK_PRESENT_MODE_IMMEDIATE_KHR
      else pick_present_mode ms swapchainPresentMode)"

text \<open>
  What \<open>create\<close> leaves behind: the object, the values written through the \<open>width\<close> and
  \<open>height\<close> pointers, the create info passed to the driver and the driver calls made.
\<close>

record create_result =
  cr_object :: VulkanSwapChain
  cr_width :: uint32_t
  cr_height :: uint32_t
  cr_ci :: VkSwapchainCreateInfoKHR
  cr_calls :: "driver_call list"

text \<open>
  \<open>create\<close>, lines 302-478. The driver calls are taken to return \<open>VK_SUCCESS\<close>; the
  transform, composite-alpha and usage fields, which no property below reads, are left out.
\<close>

definition create ::
  "surface_report \<Rightarrow> driver_reply \<Rightarrow> VulkanSwapChain \<Rightarrow> uint32_t \<Rightarrow> uint32_t \<Rightarrow> bool
     \<Rightarrow> fatal + create_result" where
  "create r d s req_width req_height vsync =
     (let oldSwapchain = swapChain s;
          surfCaps = caps r in
      if \<not> length (presentModes r) > 0 then Inl (Abort ''presentModeCount > 0'')
      else
        (let undefined_extent = (width (currentExtent surfCaps) = - 1);
             swapchainExtent =
               (if undefined_extent then \<lparr> width = req_width, height = req_height \<rparr>
                else currentExtent surfCaps);
             out_width = (if undefined_extent then req_width else width (currentExtent surfCaps));
             out_height = (if undefined_extent then req_height else height (currentExtent surfCaps));
             swapchainPresentMode =
               (if \<not> vsync then pick_present_mode (presentModes r) VK_PRESENT_MODE_FIFO_KHR
                else VK_PRESENT_MODE_FIFO_KHR);
             desiredNumberOfSwapchainImages = minImageCount surfCaps + 1;
             desiredNumberOfSwapchainImages =
               (if maxImageCount surfCaps > 0
                   \<and> desiredNumberOfSwapchainImages > maxImageCount surfCaps
                then maxImageCount surfCaps else desiredNumberOfSwapchainImages);
             swapchainCI =
               \<lparr> ci_minImageCount = desiredNumberOfSwapchainImages,
                 ci_imageFormat = colorFormat s,
                 ci_imageColorSpace = sc_colorSpace s,
                 ci_imageExtent = swapchainExtent,
                 ci_imageSharingMode = VK_SHARING_MODE_EXCLUSIVE,
                 ci_queueFamilyIndexCount = 0,
                 ci_pQueueFamilyIndices = [],
                 ci_presentMode = swapchainPresentMode,
                 ci_oldSwapchain = oldSwapchain \<rparr>;
             created = [CreateSwapchainKHR swapchainCI (new_swapChain d)];
             s1 = s\<lparr>swapChain := new_swapChain d\<rparr>;
             destroyed =
               (if oldSwapchain \<noteq> VK_NULL_HANDLE
                then map (\<lambda>i. DestroyImageView (view (buffers s1 ! i))) [0..<imageCount s1]
                       @ [DestroySwapchainKHR oldSwapchain]
                else []);
             s2 = s1\<lparr>imageCount := length (new_images d), images := new_images d\<rparr>;
             fetched = [GetSwapchainImagesKHR (swapChain s2), GetSwapchainImagesKHR (swapChain s2)];
             s3 = s2\<lparr>buffers :=
                      map (\<lambda>i. \<lparr> image = images s2 ! i, view = new_view d (images s2 ! i) \<rparr>)
                        [0..<imageCount s2]\<rparr>;
             views = map (\<lambda>i. CreateImageView (image (buffers s3 ! i)) (view (buffers s3 ! i)))
                       [0..<imageCount s3]
         in Inr \<lparr> cr_object = s3, cr_width = out_width, cr_height = out_height,
                  cr_ci = swapchainCI, cr_calls = created @ destroyed @ fetched @ views \<rparr>))"

text \<open>\<open>cleanup\<close>, lines 527-543: the object afterwards and the driver calls made.\<close>

definition cleanup :: "VulkanSwapChain \<Rightarrow> VulkanSwapChain \<times> driver_call list" where
  "cleanup s =
     (let view_calls =
            (if swapChain s \<noteq> VK_NULL_HANDLE
             then map (\<lambda>i. DestroyImageView (view (buffers s ! i))) [0..<imageCount s]
             else []);
          surface_calls =
            (if surface s \<noteq> VK_NULL_HANDLE
             then [DestroySwapchainKHR (swapChain s), DestroySurfaceKHR (surface s)]
             else [])
      in (s\<lparr>surface := VK_NULL_HANDLE, swapChain := VK_NULL_HANDLE\<rparr>,
          view_calls @ surface_calls))"

text \<open>
  The driver's side of those calls: which swapchain and image-view handles are alive.
  A swapchain is usable with a list of views when the handle and every view are alive.
\<close>

record driver_state =
  live_swapchains :: "handle set"
  live_views :: "handle set"

fun apply_call :: "driver_call \<Rightarrow> driver_state \<Rightarrow> driver_state" where
  "apply_call (CreateSwapchainKHR ci h) ds = ds\<lparr>live_swapchains := insert h (live_swapchains ds)\<rparr>"
| "apply_call (DestroySwapchainKHR h) ds = ds\<lparr>live_swapchains := live_swapchains ds - {h}\<rparr>"
| "apply_call (CreateImageView im v) ds = ds\<lparr>live_views := insert v (live_views ds)\<rparr>"
| "apply_call (DestroyImageView v) ds = ds\<lparr>live_views := live_views ds - {v}\<rparr>"
| "apply_call (DestroySurfaceKHR h) ds = ds"
| "apply_call (GetSwapchainImagesKHR h) ds = ds"

definition run_calls :: "driver_call list \<Rightarrow> driver_state \<Rightarrow> driver_state" where
  "run_calls cs ds = fold apply_call cs ds"

definition usable :: "driver_state \<Rightarrow> handle \<Rightarrow> handle list \<Rightarrow> bool" where
  "usable ds h vs \<longleftrightarrow> h \<in> live_swapchains ds \<and> set vs \<subseteq> live_views ds"

section \<open>test04: the multi-threaded renderer of vulkanchromedemo.cpp\<close>

text \<open>
  \<open>ObjectData\<close> and \<open>ThreadData\<close> with the members the scheduling reads or writes. The
  position type is left open: positions are only handed to the frustum test.
\<close>

record 'p ObjectData =
  pos :: 'p
  visible :: bool

record 'p ThreadData =
  commandBuffer :: "handle list"
  objectData :: "'p ObjectData list"

text \<open>Constructor, lines 701-715: the thread count and the objects per thread.\<close>

definition VulkanExample :: "uint32_t \<Rightarrow> fatal + uint32_t \<times> uint32_t" where
  "VulkanExample hardware_concurrency =
     (let numThreads = hardware_concurrency in
      if \<not> numThreads > 0 then Inl (Abort ''numThreads > 0'')
      else (let numObjectsPerThread = 1024 div numThreads
            in Inr (numThreads, numObjectsPerThread)))"

text \<open>
  \<open>prepareMultiThreadedRenderer\<close>, lines 1577-1609: the inner loop over the objects of
  one thread, which carries the grid counters \<open>x1\<close> and \<open>y1\<close> on to the next thread.
  \<open>position x1 y1\<close> is the \<open>glm::vec3\<close> built from the counters; \<open>visible\<close> starts as
  \<open>true\<close>, its member initializer.
\<close>

fun place_objects ::
  "(int \<Rightarrow> int \<Rightarrow> 'p) \<Rightarrow> nat \<Rightarrow> int \<Rightarrow> int \<Rightarrow> 'p ObjectData list \<times> int \<times> int" where
  "place_objects position 0 x1 y1 = ([], x1, y1)"
| "place_objects position (Suc n) x1 y1 =
     (let (x1, y1) = (if x1 \<ge> 32 then (x1 - 32, y1 + 1) else (x1, y1));
          od = \<lparr> pos = position x1 y1, visible = True \<rparr>;
          (rest, x1', y1') = place_objects position n (x1 + 1) y1
      in (od # rest, x1', y1'))"

text \<open>
  Lines 1553-1614: the outer loop over the threads \<open>i, i + 1, ...\<close>. \<open>allocated i\<close> is the
  list of \<open>numObjectsPerThread\<close> secondary command buffers that \<open>vkAllocateCommandBuffers\<close>
  writes into the resized vector of thread \<open>i\<close>.
\<close>

fun prepare_threads ::
  "(int \<Rightarrow> int \<Rightarrow> 'p) \<Rightarrow> (nat \<Rightarrow> nat \<Rightarrow> handle) \<Rightarrow> nat \<Rightarrow> nat \<Rightarrow> nat \<Rightarrow> int \<Rightarrow> int
     \<Rightarrow> 'p ThreadData list" where
  "prepare_threads position allocated numObjectsPerThread 0 i x1 y1 = []"
| "prepare_threads position allocated numObjectsPerThread (Suc n) i x1 y1 =
     (let (objects, x1', y1') = place_objects position numObjectsPerThread x1 y1;
          thread = \<lparr> commandBuffer = map (allocated i) [0..<numObjectsPerThread],
                     objectData = objects \<rparr>
      in thread # prepare_threads position allocated numObjectsPerThread n (Suc i) x1' y1')"

definition prepareMultiThreadedRenderer ::
  "(int \<Rightarrow> int \<Rightarrow> 'p) \<Rightarrow> (nat \<Rightarrow> nat \<Rightarrow> handle) \<Rightarrow> uint32_t \<Rightarrow> uint32_t \<Rightarrow> 'p ThreadData list" where
  "prepareMultiThreadedRenderer position allocated numThreads numObjectsPerThread =
     prepare_threads position allocated (unat numObjectsPerThread) (unat numThreads) 0 0 0"

text \<open>
  \<open>threadRenderCode\<close>, lines 1619-1685. \<open>checkSphere p\<close> stands for
  \<open>frustum.checkSphere(p, objectSphereDim * 0.5f)\<close> of this frame (frustum.hpp is not
  among the sources). The commands recorded for a visible object go to the driver and
  are taken to succeed; they change none of the members modelled here.
\<close>

definition threadRenderCode ::
  "('p \<Rightarrow> bool) \<Rightarrow> nat \<Rightarrow> nat \<Rightarrow> 'p ThreadData list \<Rightarrow> 'p ThreadData list" where
  "threadRenderCode checkSphere threadIndex cmdBufferIndex threadData =
     (let thread = threadData ! threadIndex in
      if length (objectData thread) \<le> 0 then threadData
      else
        (let od = objectData thread ! cmdBufferIndex;
             od = od\<lparr>visible := checkSphere (pos od)\<rparr>
         in threadData[threadIndex :=
              thread\<lparr>objectData := (objectData thread)[cmdBufferIndex := od]\<rparr>]))"

text \<open>
  A job is the closure \<open>[=] { threadRenderCode(t, i, inheritanceInfo); }\<close>, kept as the
  pair of its captured indices.

  Modelled from the spec: \<open>vks::ThreadPool\<close> (threadpool.hpp) is not among the sources.
  The pool is one queue of jobs per worker; \<open>addJob\<close> on worker \<open>t\<close> enqueues "onto that
  worker's private queue".
\<close>

type_synonym job = "nat \<times> nat"

definition addJob :: "nat \<Rightarrow> job \<Rightarrow> job list list \<Rightarrow> job list list" where
  "addJob t j queues = queues[t := queues ! t @ [j]]"

text \<open>\<open>updateCommandBuffers\<close>, lines 1774-1780: the dispatch loops.\<close>

definition dispatch_jobs :: "nat \<Rightarrow> nat \<Rightarrow> job list list \<Rightarrow> job list list" where
  "dispatch_jobs numThreads numObjectsPerThread queues =
     fold (\<lambda>t queues. fold (\<lambda>i queues. addJob t (t, i) queues) [0..<numObjectsPerThread] queues)
       [0..<numThreads] queues"

text \<open>
  Modelled from the spec: \<open>threadPool.wait()\<close> "blocks until all workers report their
  per-frame queues empty". The jobs run in some order \<open>schedule\<close>, which the caller does
  not control; every job writes only its own object, so a job is one step.
\<close>

definition run_jobs :: "('p \<Rightarrow> bool) \<Rightarrow> job list \<Rightarrow> 'p ThreadData list \<Rightarrow> 'p ThreadData list" where
  "run_jobs checkSphere schedule threadData =
     fold (\<lambda>(t, i) threadData. threadRenderCode checkSphere t i threadData) schedule threadData"

text \<open>Lines 1785-1797: the assembly loops filling \<open>commandBuffers\<close>.\<close>

definition assemble :: "nat \<Rightarrow> nat \<Rightarrow> 'p ThreadData list \<Rightarrow> handle list" where
  "assemble numThreads numObjectsPerThread threadData =
     fold (\<lambda>t commandBuffers.
             fold (\<lambda>i commandBuffers.
                     if length (objectData (threadData ! t)) > 0 then
                       (if visible (objectData (threadData ! t) ! i)
                        then commandBuffers @ [commandBuffer (threadData ! t) ! i]
                        else commandBuffers)
                     else commandBuffers)
               [0..<numObjectsPerThread] commandBuffers)
       [0..<numThreads] []"

text \<open>
  \<open>updateCommandBuffers\<close>, lines 1770-1805: the thread data after the frame, the
  assembled list, and the argument of \<open>vkCmdExecuteCommands\<close> when the call is made.
\<close>

definition updateCommandBuffers ::
  "('p \<Rightarrow> bool) \<Rightarrow> job list \<Rightarrow> nat \<Rightarrow> nat \<Rightarrow> 'p ThreadData list
     \<Rightarrow> 'p ThreadData list \<times> handle list \<times> handle list option" where
  "updateCommandBuffers checkSphere schedule numThreads numObjectsPerThread threadData =
     (let threadData = run_jobs checkSphere schedule threadData;
          commandBuffers = assemble numThreads numObjectsPerThread threadData
      in (threadData, commandBuffers,
          if length commandBuffers > 0 then Some commandBuffers else None))"

section \<open>test04: \<open>Scene::render\<close> of vulkanchromedemo.cpp\<close>

text \<open>
  \<open>std::string::find\<close>: the position of the first occurrence of the pattern, \<open>None\<close> for
  \<open>npos\<close>. \<open>find_from\<close> scans the rest of the text, \<open>i\<close> being the position reached.
\<close>

fun find_from :: "string \<Rightarrow> string \<Rightarrow> nat \<Rightarrow> nat option" where
  "find_from [] pattern i = (if pattern = [] then Some i else None)"
| "find_from (c # cs) pattern i =
     (if prefix pattern (c # cs) then Some i else find_from cs pattern (Suc i))"

definition string_find :: "string \<Rightarrow> string \<Rightarrow> nat option" where
  "string_find name pattern = find_from name pattern 0"

text \<open>
  \<open>int testForAlpha = name.find(...)\<close>: the \<open>size_t\<close> result converted to \<open>int\<close>, which
  keeps the low 32 bits as a signed value; \<open>npos\<close> is \<open>2^64 - 1\<close>.
\<close>

definition as_int :: "nat option \<Rightarrow> int" where
  "as_int r = sint (word_of_nat (case r of None \<Rightarrow> 2 ^ 64 - 1 | Some k \<Rightarrow> k) :: 32 word)"

text \<open>Lines 609-629: one pass of the sorting loop; the state is (bg, alpha, nonAlpha).\<close>

definition sort_mesh ::
  "bool \<Rightarrow> nat \<Rightarrow> string list \<Rightarrow> nat \<Rightarrow> nat list \<times> nat list \<times> nat list
     \<Rightarrow> nat list \<times> nat list \<times> nat list" where
  "sort_mesh renderSingleScenePart scenePartIndex names i buckets =
     (case buckets of (bgMeshIds, alphaMeshIds, nonAlphaMeshIds) \<Rightarrow>
        if renderSingleScenePart \<and> i \<noteq> scenePartIndex then buckets
        else
          (let testForAlpha = as_int (string_find (names ! i) ''alpha'') in
           if testForAlpha > 0 then (bgMeshIds, alphaMeshIds @ [i], nonAlphaMeshIds)
           else
             (let testForBG = as_int (string_find (names ! i) ''mask'') in
              if testForBG > 0 then (bgMeshIds @ [i], alphaMeshIds, nonAlphaMeshIds)
              else (bgMeshIds, alphaMeshIds, nonAlphaMeshIds @ [i]))))"

text \<open>
  \<open>Scene::render\<close>, lines 595-646: \<open>names ! i\<close> is \<open>meshes[i].material->name\<close>; the result
  is the list of mesh ids passed to \<open>RenderMesh\<close>, in call order.
\<close>

definition render :: "bool \<Rightarrow> nat \<Rightarrow> string list \<Rightarrow> nat list" where
  "render renderSingleScenePart scenePartIndex names =
     (case fold (sort_mesh renderSingleScenePart scenePartIndex names) [0..<length names]
             ([], [], []) of
        (bgMeshIds, alphaMeshIds, nonAlphaMeshIds) \<Rightarrow>
          bgMeshIds @ nonAlphaMeshIds @ alphaMeshIds)"

section \<open>Vocabulary of the properties and example inputs\<close>

text \<open>
  A family is graphics-capable when its flags have the graphics bit, present-capable
  when the driver answered \<open>VK_TRUE\<close> for the surface. \<open>first_index P xs\<close> is the position
  of the first element of \<open>xs\<close> that satisfies \<open>P\<close> (the length of \<open>xs\<close> when there is none).
\<close>

definition is_graphics :: "queue_family \<Rightarrow> bool" where
  "is_graphics q \<longleftrightarrow> queueFlags q AND VK_QUEUE_GRAPHICS_BIT \<noteq> 0"
definition is_present :: "queue_family \<Rightarrow> bool" where
  "is_present q \<longleftrightarrow> supportsPresent q = VK_TRUE"
definition first_index :: "('a \<Rightarrow> bool) \<Rightarrow> 'a list \<Rightarrow> nat" where
  "first_index P xs = length (takeWhile (\<lambda>x. \<not> P x) xs)"

definition graphics_only_family :: queue_family where
  "graphics_only_family = \<lparr> queueFlags = 3, supportsPresent = 0 \<rparr>"
definition present_only_family :: queue_family where
  "present_only_family = \<lparr> queueFlags = 4, supportsPresent = 1 \<rparr>"
definition combined_family :: queue_family where
  "combined_family = \<lparr> queueFlags = 7, supportsPresent = 1 \<rparr>"
definition example_caps :: VkSurfaceCapabilitiesKHR where
  "example_caps = \<lparr> minImageCount = 2, maxImageCount = 8,
      currentExtent = \<lparr> width = 0xFFFFFFFF, height = 0xFFFFFFFF \<rparr>,
      minImageExtent = \<lparr> width = 1, height = 1 \<rparr>,
      maxImageExtent = \<lparr> width = 4096, height = 4096 \<rparr> \<rparr>"
definition split_report :: surface_report where
  "split_report = \<lparr> families = [graphics_only_family, present_only_family],
      formats = [\<lparr> format = 44, colorSpace = 0 \<rparr>],
      presentModes = [VK_PRESENT_MODE_FIFO_KHR], caps = example_caps \<rparr>"
definition fresh_object :: VulkanSwapChain where
  "fresh_object = \<lparr> surface = 0, colorFormat = 0, sc_colorSpace = 0, swapChain = VK_NULL_HANDLE,
      imageCount = 0, images = [], buffers = [], queueNodeIndex = UINT32_MAX \<rparr>"

definition combined_report :: surface_report where
  "combined_report = \<lparr> families = [graphics_only_family, combined_family],
      formats = [\<lparr> format = VK_FORMAT_UNDEFINED, colorSpace = 0 \<rparr>],
      presentModes = [VK_PRESENT_MODE_FIFO_KHR], caps = example_caps \<rparr>"

definition example_reply :: driver_reply where
  "example_reply = \<lparr> new_swapChain = 2, new_images = [20, 21], new_view = (\<lambda>im. im + 10) \<rparr>"

definition single_undefined :: "VkSurfaceFormatKHR list \<Rightarrow> bool" where
  "single_undefined fs \<longleftrightarrow> length fs = 1 \<and> format (hd fs) = VK_FORMAT_UNDEFINED"

definition clamp_extent :: "VkExtent2D \<Rightarrow> VkExtent2D \<Rightarrow> VkExtent2D \<Rightarrow> VkExtent2D" where
  "clamp_extent lo hi e =
     \<lparr> width = max (width lo) (min (width hi) (width e)),
       height = max (height lo) (min (height hi) (height e)) \<rparr>"

text \<open>The image count as C4 words it.\<close>

definition claimed_image_count :: "VkSurfaceCapabilitiesKHR \<Rightarrow> uint32_t" where
  "claimed_image_count c =
     (if maxImageCount c \<noteq> 0 \<and> maxImageCount c < minImageCount c + 1 then maxImageCount c
      else minImageCount c + 1)"


text \<open>
  The cases in which C8 says initialization ends the process; a report whose current
  extent is defined; the same report as \<open>split_report\<close> without present modes.
\<close>

definition claimed_fatal :: "surface_report \<Rightarrow> bool" where
  "claimed_fatal r \<longleftrightarrow>
     \<not> list_ex is_graphics (families r) \<or> \<not> list_ex is_present (families r)
     \<or> formats r = [] \<or> presentModes r = []"

definition sized_report :: surface_report where
  "sized_report = combined_report
     \<lparr> caps := example_caps \<lparr> currentExtent := \<lparr> width = 800, height = 600 \<rparr> \<rparr> \<rparr>"

definition modeless_report :: surface_report where
  "modeless_report = split_report \<lparr> presentModes := [] \<rparr>"

text \<open>
  A swapchain object after its first \<open>create\<close> (handle 2, views 30 and 31), the driver
  state that goes with it, and the driver's answers to a second \<open>create\<close>.
\<close>

definition created_object :: VulkanSwapChain where
  "created_object = \<lparr> surface = 1, colorFormat = 44, sc_colorSpace = 0, swapChain = 2,
      imageCount = 2, images = [20, 21],
      buffers = [\<lparr> image = 20, view = 30 \<rparr>, \<lparr> image = 21, view = 31 \<rparr>],
      queueNodeIndex = 1 \<rparr>"

definition created_driver_state :: driver_state where
  "created_driver_state = \<lparr> live_swapchains = {2}, live_views = {30, 31} \<rparr>"

definition second_reply :: driver_reply where
  "second_reply = \<lparr> new_swapChain = 3, new_images = [40, 41], new_view = (\<lambda>im. im + 10) \<rparr>"

text \<open>
  The layout \<open>prepareMultiThreadedRenderer\<close> gives the thread data: \<open>N\<close> threads, each
  with \<open>M\<close> command buffers and \<open>M\<close> objects.
\<close>

definition partitioned :: "nat \<Rightarrow> nat \<Rightarrow> 'p ThreadData list \<Rightarrow> bool" where
  "partitioned N M threadData \<longleftrightarrow>
     length threadData = N
     \<and> list_all (\<lambda>thread. length (commandBuffer thread) = M \<and> length (objectData thread) = M)
         threadData"

text \<open>Two threads with two objects each, positions being plain numbers.\<close>

definition example_threads :: "int ThreadData list" where
  "example_threads =
     [\<lparr> commandBuffer = [100, 101],
        objectData = [\<lparr> pos = 5, visible = True \<rparr>, \<lparr> pos = -5, visible = True \<rparr>] \<rparr>,
      \<lparr> commandBuffer = [110, 111],
        objectData = [\<lparr> pos = -7, visible = True \<rparr>, \<lparr> pos = 7, visible = True \<rparr>] \<rparr>]"

text \<open>
  The draw order as C5 words it: the meshes not skipped, those with "mask" in the
  material name first, then those with neither "mask" nor "alpha", then those with
  "alpha". Two lists of material names follow.
\<close>

definition claimed_draw_order :: "bool \<Rightarrow> nat \<Rightarrow> string list \<Rightarrow> nat list" where
  "claimed_draw_order renderSingleScenePart scenePartIndex names =
     filter (\<lambda>i. \<not> (renderSingleScenePart \<and> i \<noteq> scenePartIndex)
                  \<and> sublist ''mask'' (names ! i)) [0..<length names]
     @ filter (\<lambda>i. \<not> (renderSingleScenePart \<and> i \<noteq> scenePartIndex)
                  \<and> \<not> sublist ''mask'' (names ! i) \<and> \<not> sublist ''alpha'' (names ! i))
         [0..<length names]
     @ filter (\<lambda>i. \<not> (renderSingleScenePart \<and> i \<noteq> scenePartIndex)
                  \<and> sublist ''alpha'' (names ! i)) [0..<length names]"

definition masked_glass_names :: "string list" where
  "masked_glass_names = [''glass_alpha_mask'', ''wall'']"

definition scene_names :: "string list" where
  "scene_names = [''glass_alpha'', ''wall'', ''sky_mask'']"
section \<open>Properties\<close>

subsection \<open>Queue-family search and the selection code\<close>

lemma first_index_Cons: "first_index P (x # xs) = (if P x then 0 else Suc (first_index P xs))"
  by (simp add: first_index_def)

lemma first_index_Nil: "first_index P [] = 0"
  by (simp add: first_index_def)

lemma first_index_less: "\<exists>x\<in>set xs. P x \<Longrightarrow> first_index P xs < length xs"
  by (induction xs) (auto simp: first_index_Cons)

lemma first_index_holds: "\<exists>x\<in>set xs. P x \<Longrightarrow> P (xs ! first_index P xs)"
  by (induction xs) (auto simp: first_index_Cons)

lemma first_index_least: "j < first_index P xs \<Longrightarrow> \<not> P (xs ! j)"
proof (induction xs arbitrary: j)
  case Nil
  then show ?case by (simp add: first_index_Nil)
next
  case (Cons x xs)
  then show ?case by (cases j) (auto simp: first_index_Cons split: if_splits)
qed

lemma search_present_eq:
  "search_present qs i =
     (if \<exists>q\<in>set qs. is_present q then i + first_index is_present qs else UINT32_MAX)"
  by (induction qs arbitrary: i) (auto simp: first_index_Cons is_present_def)

lemma search_both_eq:
  "i + length qs \<le> UINT32_MAX \<Longrightarrow>
   search_both qs i g0 =
     (if \<exists>q\<in>set qs. is_graphics q \<and> is_present q
      then (i + first_index (\<lambda>q. is_graphics q \<and> is_present q) qs,
            i + first_index (\<lambda>q. is_graphics q \<and> is_present q) qs)
      else ((if g0 = UINT32_MAX \<and> (\<exists>q\<in>set qs. is_graphics q)
             then i + first_index is_graphics qs else g0), UINT32_MAX))"
proof (induction qs arbitrary: i g0)
  case Nil
  then show ?case by simp
next
  case (Cons q qs)
  then have b: "Suc i + length qs \<le> UINT32_MAX" and ne: "i \<noteq> UINT32_MAX" by auto
  show ?case
    using ne by (auto simp: Cons.IH [OF b] first_index_Cons is_graphics_def is_present_def Let_def)
qed

lemma find_queues_eq:
  assumes "length qs \<le> UINT32_MAX"
  shows "find_queues qs =
     (if \<exists>q\<in>set qs. is_graphics q \<and> is_present q
      then (first_index (\<lambda>q. is_graphics q \<and> is_present q) qs,
            first_index (\<lambda>q. is_graphics q \<and> is_present q) qs)
      else ((if \<exists>q\<in>set qs. is_graphics q then first_index is_graphics qs else UINT32_MAX),
            (if \<exists>q\<in>set qs. is_present q then first_index is_present qs else UINT32_MAX)))"
proof -
  have b: "0 + length qs \<le> UINT32_MAX" using assms by simp
  have lt: "first_index (\<lambda>q. is_graphics q \<and> is_present q) qs \<noteq> UINT32_MAX"
    if "\<exists>q\<in>set qs. is_graphics q \<and> is_present q"
    using first_index_less [OF that] assms by simp
  show ?thesis
    unfolding find_queues_def search_both_eq [OF b] search_present_eq
    using lt by auto
qed

lemma find_queues_fst_sentinel:
  assumes "length qs \<le> UINT32_MAX"
  shows "fst (find_queues qs) = UINT32_MAX \<longleftrightarrow> \<not> (\<exists>q\<in>set qs. is_graphics q)"
proof -
  have "first_index P qs \<noteq> UINT32_MAX" if "\<exists>q\<in>set qs. P q" for P
    using first_index_less [OF that] assms by simp
  then show ?thesis
    by (auto simp: find_queues_eq [OF assms])
qed

lemma find_queues_snd_sentinel:
  assumes "length qs \<le> UINT32_MAX"
  shows "snd (find_queues qs) = UINT32_MAX \<longleftrightarrow> \<not> (\<exists>q\<in>set qs. is_present q)"
proof -
  have "first_index P qs \<noteq> UINT32_MAX" if "\<exists>q\<in>set qs. P q" for P
    using first_index_less [OF that] assms by simp
  then show ?thesis
    by (auto simp: find_queues_eq [OF assms])
qed

lemma find_queues_split:
  assumes len: "length qs \<le> UINT32_MAX"
    and none: "\<forall>q\<in>set qs. \<not> (is_graphics q \<and> is_present q)"
    and g: "\<exists>q\<in>set qs. is_graphics q"
    and p: "\<exists>q\<in>set qs. is_present q"
  shows "find_queues qs = (first_index is_graphics qs, first_index is_present qs)"
    and "first_index is_graphics qs \<noteq> first_index is_present qs"
    and "first_index is_graphics qs \<noteq> UINT32_MAX"
    and "first_index is_present qs \<noteq> UINT32_MAX"
proof -
  show "find_queues qs = (first_index is_graphics qs, first_index is_present qs)"
    using none g p by (auto simp: find_queues_eq [OF len])
  have hg: "is_graphics (qs ! first_index is_graphics qs)" by (rule first_index_holds [OF g])
  have hp: "is_present (qs ! first_index is_present qs)" by (rule first_index_holds [OF p])
  have "first_index is_graphics qs < length qs" by (rule first_index_less [OF g])
  then have "qs ! first_index is_graphics qs \<in> set qs" by simp
  with none hg have "\<not> is_present (qs ! first_index is_graphics qs)" by blast
  with hp show "first_index is_graphics qs \<noteq> first_index is_present qs" by auto
  show "first_index is_graphics qs \<noteq> UINT32_MAX"
    using first_index_less [OF g] len by simp
  show "first_index is_present qs \<noteq> UINT32_MAX"
    using first_index_less [OF p] len by simp
qed


lemma sample_main_cases:
  "sample_main r w h =
     (if fst (find_queues (families r)) = UINT32_MAX \<or> snd (find_queues (families r)) = UINT32_MAX
      then Inl (Exit ''Could not find a queues for graphics and present'')
      else if formats r = [] then Inl (Abort ''formatCount >= 1'')
      else Inr \<lparr> ci_minImageCount = minImageCount (caps r),
                 ci_imageFormat =
                   (if single_undefined (formats r) then VK_FORMAT_B8G8R8A8_UNORM
                    else format (hd (formats r))),
                 ci_imageColorSpace = VK_COLORSPACE_SRGB_NONLINEAR_KHR,
                 ci_imageExtent = test1_extent (caps r) w h,
                 ci_imageSharingMode =
                   (if fst (find_queues (families r)) \<noteq> snd (find_queues (families r))
                    then VK_SHARING_MODE_CONCURRENT else VK_SHARING_MODE_EXCLUSIVE),
                 ci_queueFamilyIndexCount =
                   (if fst (find_queues (families r)) \<noteq> snd (find_queues (families r))
                    then 2 else 0),
                 ci_pQueueFamilyIndices =
                   (if fst (find_queues (families r)) \<noteq> snd (find_queues (families r))
                    then [fst (find_queues (families r)), snd (find_queues (families r))] else []),
                 ci_presentMode = VK_PRESENT_MODE_FIFO_KHR,
                 ci_oldSwapchain = VK_NULL_HANDLE \<rparr>)"
proof (cases "formats r")
  case Nil
  then show ?thesis
    by (simp add: sample_main_def test1_format_def split: prod.splits)
next
  case (Cons f fs)
  then show ?thesis
    by (cases fs) (simp_all add: sample_main_def test1_format_def single_undefined_def Let_def
        split: prod.splits)
qed


lemma initSurface_cases:
  "initSurface r created s =
     (if families r = [] then Inl (Abort ''queueCount >= 1'')
      else if fst (find_queues (families r)) = UINT32_MAX \<or> snd (find_queues (families r)) = UINT32_MAX
      then Inl (Exit ''Could not find a graphics and/or presenting queue!'')
      else if fst (find_queues (families r)) \<noteq> snd (find_queues (families r))
      then Inl (Exit ''Separate graphics and presenting queues are not supported yet!'')
      else if formats r = [] then Inl (Abort ''formatCount > 0'')
      else Inr (s\<lparr> surface := created,
                   queueNodeIndex := fst (find_queues (families r)),
                   colorFormat :=
                     (if single_undefined (formats r) then VK_FORMAT_B8G8R8A8_UNORM
                      else case find (\<lambda>sf. format sf = VK_FORMAT_B8G8R8A8_UNORM) (formats r) of
                             Some sf \<Rightarrow> format sf | None \<Rightarrow> format (hd (formats r))),
                   sc_colorSpace :=
                     (if single_undefined (formats r) then colorSpace (hd (formats r))
                      else case find (\<lambda>sf. format sf = VK_FORMAT_B8G8R8A8_UNORM) (formats r) of
                             Some sf \<Rightarrow> colorSpace sf | None \<Rightarrow> colorSpace (hd (formats r))) \<rparr>))"
proof (cases "formats r")
  case Nil
  then show ?thesis
    by (simp add: initSurface_def exitFatal_def Suc_le_eq split: prod.splits)
next
  case (Cons f fs)
  then show ?thesis
    by (cases fs) (simp_all add: initSurface_def exitFatal_def single_undefined_def Let_def
        Suc_le_eq split: prod.splits option.splits)
qed

lemma create_fails_iff:
  "create r d s w h v = Inl e \<longleftrightarrow> e = Abort ''presentModeCount > 0'' \<and> presentModes r = []"
  by (auto simp: create_def Let_def)

lemma create_ci:
  assumes "create r d s w h v = Inr res"
  shows "ci_minImageCount (cr_ci res) =
           (if maxImageCount (caps r) \<noteq> 0
            then min (minImageCount (caps r) + 1) (maxImageCount (caps r))
            else minImageCount (caps r) + 1)"
    and "ci_imageExtent (cr_ci res) =
           (if width (currentExtent (caps r)) = 0xFFFFFFFF then \<lparr> width = w, height = h \<rparr>
            else currentExtent (caps r))"
    and "ci_imageSharingMode (cr_ci res) = VK_SHARING_MODE_EXCLUSIVE"
proof -
  show "ci_minImageCount (cr_ci res) =
           (if maxImageCount (caps r) \<noteq> 0
            then min (minImageCount (caps r) + 1) (maxImageCount (caps r))
            else minImageCount (caps r) + 1)"
    using assms by (auto simp: create_def Let_def min_def word_gt_0 split: if_splits)
  show "ci_imageExtent (cr_ci res) =
           (if width (currentExtent (caps r)) = 0xFFFFFFFF then \<lparr> width = w, height = h \<rparr>
            else currentExtent (caps r))"
    using assms by (auto simp: create_def Let_def split: if_splits)
  show "ci_imageSharingMode (cr_ci res) = VK_SHARING_MODE_EXCLUSIVE"
    using assms by (auto simp: create_def Let_def split: if_splits)
qed

lemma test1_extent_clamp:
  assumes "width (minImageExtent c) \<le> width (maxImageExtent c)"
    and "height (minImageExtent c) \<le> height (maxImageExtent c)"
  shows "test1_extent c w h =
           (if width (currentExtent c) = 0xFFFFFFFF
            then clamp_extent (minImageExtent c) (maxImageExtent c) \<lparr> width = w, height = h \<rparr>
            else currentExtent c)"
  using assms by (auto simp: test1_extent_def clamp_extent_def max_def min_def)


lemmas example_defs =
  combined_report_def split_report_def example_caps_def example_reply_def fresh_object_def
  graphics_only_family_def present_only_family_def combined_family_def

lemma find_queues_combined: "find_queues (families combined_report) = (1, 1)"
  by (simp add: find_queues_def example_defs VK_QUEUE_GRAPHICS_BIT_def VK_TRUE_def UINT32_MAX_def)

lemma find_queues_split_report: "find_queues (families split_report) = (0, 1)"
  by (simp add: find_queues_def example_defs VK_QUEUE_GRAPHICS_BIT_def VK_TRUE_def UINT32_MAX_def)

lemma sample_main_combined:
  "sample_main combined_report w h =
     Inr \<lparr> ci_minImageCount = 2, ci_imageFormat = 44, ci_imageColorSpace = 0,
           ci_imageExtent = test1_extent example_caps w h,
           ci_imageSharingMode = VK_SHARING_MODE_EXCLUSIVE,
           ci_queueFamilyIndexCount = 0, ci_pQueueFamilyIndices = [],
           ci_presentMode = VK_PRESENT_MODE_FIFO_KHR, ci_oldSwapchain = 0 \<rparr>"
  unfolding sample_main_cases find_queues_combined
  by (simp add: combined_report_def example_caps_def single_undefined_def UINT32_MAX_def
      VK_FORMAT_UNDEFINED_def VK_FORMAT_B8G8R8A8_UNORM_def VK_COLORSPACE_SRGB_NONLINEAR_KHR_def
      VK_NULL_HANDLE_def)

lemma create_combined:
  "create combined_report example_reply fresh_object w h False =
     Inr \<lparr> cr_object = \<lparr> surface = 0, colorFormat = 0, sc_colorSpace = 0, swapChain = 2,
                         imageCount = 2, images = [20, 21],
                         buffers = [\<lparr> image = 20, view = 30 \<rparr>, \<lparr> image = 21, view = 31 \<rparr>],
                         queueNodeIndex = UINT32_MAX \<rparr>,
           cr_width = w, cr_height = h,
           cr_ci = \<lparr> ci_minImageCount = 3, ci_imageFormat = 0, ci_imageColorSpace = 0,
                     ci_imageExtent = \<lparr> width = w, height = h \<rparr>,
                     ci_imageSharingMode = VK_SHARING_MODE_EXCLUSIVE,
                     ci_queueFamilyIndexCount = 0, ci_pQueueFamilyIndices = [],
                     ci_presentMode = VK_PRESENT_MODE_FIFO_KHR, ci_oldSwapchain = 0 \<rparr>,
           cr_calls =
             [CreateSwapchainKHR
                \<lparr> ci_minImageCount = 3, ci_imageFormat = 0, ci_imageColorSpace = 0,
                  ci_imageExtent = \<lparr> width = w, height = h \<rparr>,
                  ci_imageSharingMode = VK_SHARING_MODE_EXCLUSIVE,
                  ci_queueFamilyIndexCount = 0, ci_pQueueFamilyIndices = [],
                  ci_presentMode = VK_PRESENT_MODE_FIFO_KHR, ci_oldSwapchain = 0 \<rparr> 2,
              GetSwapchainImagesKHR 2, GetSwapchainImagesKHR 2,
              CreateImageView 20 30, CreateImageView 21 31] \<rparr>"
  by (simp add: create_def example_defs Let_def VK_NULL_HANDLE_def)


lemma initSurface_split_report:
  "initSurface split_report created s =
     Inl (Exit ''Separate graphics and presenting queues are not supported yet!'')"
  unfolding initSurface_cases find_queues_split_report
  by (simp add: split_report_def UINT32_MAX_def)


lemma find_queues_differ:
  assumes len: "length qs \<le> UINT32_MAX"
    and g: "\<exists>q\<in>set qs. is_graphics q"
    and p: "\<exists>q\<in>set qs. is_present q"
  shows "fst (find_queues qs) \<noteq> snd (find_queues qs) \<longleftrightarrow> \<not> (\<exists>q\<in>set qs. is_graphics q \<and> is_present q)"
proof (cases "\<exists>q\<in>set qs. is_graphics q \<and> is_present q")
  case True
  then show ?thesis by (simp add: find_queues_eq [OF len])
next
  case False
  then have none: "\<forall>q\<in>set qs. \<not> (is_graphics q \<and> is_present q)" by blast
  from find_queues_split(1,2) [OF len none g p] False show ?thesis by simp
qed


lemma list_ex_set: "list_ex P xs \<longleftrightarrow> (\<exists>x\<in>set xs. P x)"
  by (simp add: list_ex_iff)

lemma sample_main_modeless: "\<not> isl (sample_main modeless_report w h)"
proof -
  have "find_queues (families modeless_report) = (0, 1)"
    using find_queues_split_report by (simp add: modeless_report_def)
  then show ?thesis
    by (simp add: sample_main_cases UINT32_MAX_def modeless_report_def split_report_def)
qed

lemma sample_main_sized:
  "ci_imageExtent (projr (sample_main sized_report w h)) = \<lparr> width = 800, height = 600 \<rparr>
   \<and> \<not> isl (sample_main sized_report w h)"
proof -
  have "find_queues (families sized_report) = (1, 1)"
    using find_queues_combined by (simp add: sized_report_def)
  then show ?thesis
    by (simp add: sample_main_cases UINT32_MAX_def sized_report_def combined_report_def
        example_caps_def test1_extent_def)
qed


subsection \<open>Driver calls of \<open>create\<close> and \<open>cleanup\<close>\<close>

lemma map_nth_upt: "map (\<lambda>i. f (xs ! i)) [0..<length xs] = map f xs"
  by (rule nth_equalityI) simp_all

lemma run_calls_append: "run_calls (xs @ ys) ds = run_calls ys (run_calls xs ds)"
  by (simp add: run_calls_def)

lemma run_calls_Cons: "run_calls (c # cs) ds = run_calls cs (apply_call c ds)"
  by (simp add: run_calls_def)

lemma run_calls_Nil: "run_calls [] ds = ds"
  by (simp add: run_calls_def)

lemma swapchain_stays_live:
  "h \<in> live_swapchains ds \<Longrightarrow> DestroySwapchainKHR h \<notin> set cs
     \<Longrightarrow> h \<in> live_swapchains (run_calls cs ds)"
proof (induction cs arbitrary: ds)
  case Nil
  then show ?case by (simp add: run_calls_Nil)
next
  case (Cons c cs)
  from Cons.prems have "h \<in> live_swapchains (apply_call c ds)"
    by (cases c) auto
  with Cons show ?case by (simp add: run_calls_Cons)
qed

lemma views_created:
  "live_views (run_calls (map (\<lambda>im. CreateImageView im (f im)) ims) ds) = live_views ds \<union> f ` set ims"
  by (induction ims arbitrary: ds) (auto simp: run_calls_Nil run_calls_Cons)

lemma views_created_chains:
  "live_swapchains (run_calls (map (\<lambda>im. CreateImageView im (f im)) ims) ds) = live_swapchains ds"
  by (induction ims arbitrary: ds) (auto simp: run_calls_Nil run_calls_Cons)

lemma create_calls:
  assumes "create r d s w h v = Inr res"
  shows "cr_calls res =
           [CreateSwapchainKHR (cr_ci res) (new_swapChain d)]
           @ (if swapChain s \<noteq> VK_NULL_HANDLE
              then map (\<lambda>i. DestroyImageView (view (buffers s ! i))) [0..<imageCount s]
                     @ [DestroySwapchainKHR (swapChain s)]
              else [])
           @ [GetSwapchainImagesKHR (new_swapChain d), GetSwapchainImagesKHR (new_swapChain d)]
           @ map (\<lambda>im. CreateImageView im (new_view d im)) (new_images d)"
    and "ci_oldSwapchain (cr_ci res) = swapChain s"
    and "swapChain (cr_object res) = new_swapChain d"
    and "map view (buffers (cr_object res)) = map (new_view d) (new_images d)"
proof -
  have v: "map (\<lambda>i. CreateImageView
                    (image (map (\<lambda>i. \<lparr>image = new_images d ! i, view = new_view d (new_images d ! i)\<rparr>)
                       [0..<length (new_images d)] ! i))
                    (view (map (\<lambda>i. \<lparr>image = new_images d ! i, view = new_view d (new_images d ! i)\<rparr>)
                       [0..<length (new_images d)] ! i)))
             [0..<length (new_images d)]
           = map (\<lambda>im. CreateImageView im (new_view d im)) (new_images d)"
    by (rule nth_equalityI) simp_all
  have b: "map view (map (\<lambda>i. \<lparr>image = new_images d ! i, view = new_view d (new_images d ! i)\<rparr>)
                       [0..<length (new_images d)]) = map (new_view d) (new_images d)"
    by (rule nth_equalityI) simp_all
  from assms have pm: "presentModes r \<noteq> []"
    by (auto simp: create_def Let_def split: if_splits)
  show "cr_calls res =
           [CreateSwapchainKHR (cr_ci res) (new_swapChain d)]
           @ (if swapChain s \<noteq> VK_NULL_HANDLE
              then map (\<lambda>i. DestroyImageView (view (buffers s ! i))) [0..<imageCount s]
                     @ [DestroySwapchainKHR (swapChain s)]
              else [])
           @ [GetSwapchainImagesKHR (new_swapChain d), GetSwapchainImagesKHR (new_swapChain d)]
           @ map (\<lambda>im. CreateImageView im (new_view d im)) (new_images d)"
    using assms pm v by (auto simp: create_def Let_def)
  show "ci_oldSwapchain (cr_ci res) = swapChain s"
    using assms pm by (auto simp: create_def Let_def)
  show "swapChain (cr_object res) = new_swapChain d"
    using assms pm by (auto simp: create_def Let_def)
  show "map view (buffers (cr_object res)) = map (new_view d) (new_images d)"
    using assms pm b by (auto simp: create_def Let_def)
qed

lemma views_destroyed_chains:
  "live_swapchains (run_calls (map (\<lambda>i. DestroyImageView (g i)) js) ds) = live_swapchains ds"
  by (induction js arbitrary: ds) (auto simp: run_calls_Nil run_calls_Cons)

lemma recreate_calls:
  assumes c: "create r d s w h v = Inr res"
    and old: "swapChain s \<noteq> VK_NULL_HANDLE"
    and cnt: "imageCount s = length (buffers s)"
  shows "cr_calls res =
           CreateSwapchainKHR (cr_ci res) (new_swapChain d)
           # (map (\<lambda>i. DestroyImageView (view (buffers s ! i))) [0..<length (buffers s)]
             @ [DestroySwapchainKHR (swapChain s),
                GetSwapchainImagesKHR (new_swapChain d), GetSwapchainImagesKHR (new_swapChain d)]
             @ map (\<lambda>im. CreateImageView im (new_view d im)) (new_images d))"
  using create_calls(1) [OF c] old cnt by simp

lemma create_recreated:
  "create combined_report second_reply created_object w h False =
     Inr (projr (create combined_report second_reply created_object w h False))"
  by (simp add: create_def combined_report_def Let_def)


subsection \<open>Dispatch and thread data\<close>

lemma inner_dispatch:
  "t < length queues \<Longrightarrow>
   fold (\<lambda>i queues. addJob t (t, i) queues) js queues
     = queues[t := queues ! t @ map (Pair t) js]"
proof (induction js arbitrary: queues)
  case Nil
  then show ?case by simp
next
  case (Cons j js)
  then show ?case by (simp add: addJob_def)
qed

lemma outer_dispatch:
  assumes "distinct ts" and "\<forall>t\<in>set ts. t < length queues"
  shows "length (fold (\<lambda>t queues. fold (\<lambda>i queues. addJob t (t, i) queues) js queues) ts queues)
           = length queues
       \<and> (\<forall>j<length queues.
            fold (\<lambda>t queues. fold (\<lambda>i queues. addJob t (t, i) queues) js queues) ts queues ! j
              = (if j \<in> set ts then queues ! j @ map (Pair j) js else queues ! j))"
  using assms
proof (induction ts arbitrary: queues)
  case Nil
  then show ?case by simp
next
  case (Cons t ts)
  let ?q = "queues[t := queues ! t @ map (Pair t) js]"
  from Cons.prems have t: "t < length queues" and nin: "t \<notin> set ts" and d: "distinct ts"
    and b: "\<forall>u\<in>set ts. u < length ?q"
    by simp_all
  note ih = Cons.IH [OF d b]
  have step: "fold (\<lambda>t queues. fold (\<lambda>i queues. addJob t (t, i) queues) js queues) (t # ts) queues
      = fold (\<lambda>t queues. fold (\<lambda>i queues. addJob t (t, i) queues) js queues) ts ?q"
    by (simp add: inner_dispatch [OF t])
  show ?case
    unfolding step using ih t nin by (auto simp: nth_list_update)
qed

lemma dispatch_jobs_queues:
  "dispatch_jobs N M (replicate N []) = map (\<lambda>t. map (Pair t) [0..<M]) [0..<N]"
proof -
  have "distinct [0..<N]" and "\<forall>t\<in>set [0..<N]. t < length (replicate N ([] :: job list))"
    by simp_all
  from outer_dispatch [OF this, of "[0..<M]"] show ?thesis
    unfolding dispatch_jobs_def by (intro nth_equalityI) simp_all
qed

lemma dispatched_jobs_set:
  "set (concat (dispatch_jobs N M (replicate N []))) = {(t, i). t < N \<and> i < M}"
  by (auto simp: dispatch_jobs_queues)

lemma distinct_job_grid:
  "distinct ts \<Longrightarrow> distinct js \<Longrightarrow> distinct (concat (map (\<lambda>t. map (Pair t) js) ts))"
  by (induction ts) (auto simp: distinct_map inj_on_def)

lemma dispatched_jobs_distinct:
  "distinct (concat (dispatch_jobs N M (replicate N [])))"
  unfolding dispatch_jobs_queues by (rule distinct_job_grid) simp_all

lemma place_objects_length: "length (fst (place_objects position n x1 y1)) = n"
proof (induction n arbitrary: x1 y1)
  case 0
  then show ?case by simp
next
  case (Suc n)
  show ?case
  proof (cases "x1 \<ge> 32")
    case True
    obtain rest a b where r: "place_objects position n (x1 - 32 + 1) (y1 + 1) = (rest, a, b)"
      by (cases "place_objects position n (x1 - 32 + 1) (y1 + 1)") auto
    with Suc [of "x1 - 32 + 1" "y1 + 1"] True show ?thesis by simp
  next
    case False
    obtain rest a b where r: "place_objects position n (x1 + 1) y1 = (rest, a, b)"
      by (cases "place_objects position n (x1 + 1) y1") auto
    with Suc [of "x1 + 1" y1] False show ?thesis by simp
  qed
qed

lemma prepare_threads_partitioned:
  "partitioned n M (prepare_threads position allocated M n i x1 y1)"
proof (induction n arbitrary: i x1 y1)
  case 0
  then show ?case by (simp add: partitioned_def)
next
  case (Suc n)
  obtain objects x1' y1' where po: "place_objects position M x1 y1 = (objects, x1', y1')"
    by (cases "place_objects position M x1 y1") auto
  have "length objects = M" using place_objects_length [of position M x1 y1] po by simp
  with Suc [of "Suc i" x1' y1'] po show ?case
    by (simp add: partitioned_def)
qed

lemma partitioned_total:
  "partitioned N M threadData \<Longrightarrow> sum_list (map (\<lambda>thread. length (objectData thread)) threadData) = N * M"
proof (induction threadData arbitrary: N)
  case Nil
  then show ?case by (simp add: partitioned_def)
next
  case (Cons a threadData)
  from Cons.prems have "partitioned (length threadData) M threadData" and "length (objectData a) = M"
    and "N = Suc (length threadData)"
    by (auto simp: partitioned_def)
  with Cons.IH [of "length threadData"] show ?case by simp
qed


subsection \<open>Jobs and assembly of a frame\<close>

lemma partitioned_nth:
  "partitioned N M td \<Longrightarrow> t < N \<Longrightarrow>
     length (commandBuffer (td ! t)) = M \<and> length (objectData (td ! t)) = M"
  by (auto simp: partitioned_def list_all_length)

lemma partitioned_length: "partitioned N M td \<Longrightarrow> length td = N"
  by (simp add: partitioned_def)

lemma threadRenderCode_step:
  assumes p: "partitioned N M td" and t0: "t0 < N" and i0: "i0 < M"
  shows "partitioned N M (threadRenderCode cs t0 i0 td)"
    and "t < N \<Longrightarrow> commandBuffer (threadRenderCode cs t0 i0 td ! t) = commandBuffer (td ! t)"
    and "t < N \<Longrightarrow> i < M \<Longrightarrow>
           objectData (threadRenderCode cs t0 i0 td ! t) ! i
             = (if t = t0 \<and> i = i0
                then (objectData (td ! t) ! i)\<lparr>visible := cs (pos (objectData (td ! t) ! i))\<rparr>
                else objectData (td ! t) ! i)"
proof -
  note n = partitioned_nth [OF p t0] and l = partitioned_length [OF p]
  have ne: "\<not> length (objectData (td ! t0)) \<le> 0" using n i0 by simp
  show "partitioned N M (threadRenderCode cs t0 i0 td)"
    using p n ne t0 l
    by (auto simp: threadRenderCode_def Let_def partitioned_def list_all_length nth_list_update)
  show "commandBuffer (threadRenderCode cs t0 i0 td ! t) = commandBuffer (td ! t)" if "t < N"
    using that ne l t0 by (auto simp: threadRenderCode_def Let_def nth_list_update)
  show "objectData (threadRenderCode cs t0 i0 td ! t) ! i
             = (if t = t0 \<and> i = i0
                then (objectData (td ! t) ! i)\<lparr>visible := cs (pos (objectData (td ! t) ! i))\<rparr>
                else objectData (td ! t) ! i)" if "t < N" "i < M"
    using that ne l t0 n i0 by (auto simp: threadRenderCode_def Let_def nth_list_update)
qed

lemma run_jobs_Cons:
  "run_jobs cs ((t, i) # js) td = run_jobs cs js (threadRenderCode cs t i td)"
  by (simp add: run_jobs_def)

lemma run_jobs_effect:
  assumes "partitioned N M td" and "\<forall>(t, i)\<in>set js. t < N \<and> i < M"
  shows "partitioned N M (run_jobs cs js td)
       \<and> (\<forall>t<N. commandBuffer (run_jobs cs js td ! t) = commandBuffer (td ! t))
       \<and> (\<forall>t<N. \<forall>i<M. objectData (run_jobs cs js td ! t) ! i
             = (if (t, i) \<in> set js
                then (objectData (td ! t) ! i)\<lparr>visible := cs (pos (objectData (td ! t) ! i))\<rparr>
                else objectData (td ! t) ! i))"
  using assms
proof (induction js arbitrary: td)
  case Nil
  then show ?case by (simp add: run_jobs_def)
next
  case (Cons j js)
  obtain t0 i0 where j: "j = (t0, i0)" by (cases j)
  from Cons.prems j have t0: "t0 < N" and i0: "i0 < M"
    and rest: "\<forall>(t, i)\<in>set js. t < N \<and> i < M"
    by auto
  note st = threadRenderCode_step [OF Cons.prems(1) t0 i0, where cs = cs]
  note ih = Cons.IH [OF st(1) rest]
  show ?case
    unfolding j run_jobs_Cons
    using ih st(2,3) by auto
qed


lemma inner_assemble:
  "fold (\<lambda>i cbs. if c then (if P i then cbs @ [f i] else cbs) else cbs) js cbs
     = cbs @ map f (filter (\<lambda>i. c \<and> P i) js)"
  by (induction js arbitrary: cbs) simp_all

lemma outer_assemble:
  "fold (\<lambda>t cbs. cbs @ g t) ts cbs = cbs @ concat (map g ts)"
  by (induction ts arbitrary: cbs) simp_all

lemma assemble_eq:
  "assemble N M td =
     concat (map (\<lambda>t. map (\<lambda>i. commandBuffer (td ! t) ! i)
                         (filter (\<lambda>i. length (objectData (td ! t)) > 0
                                        \<and> visible (objectData (td ! t) ! i)) [0..<M]))
               [0..<N])"
  by (simp add: assemble_def inner_assemble outer_assemble)

lemma assemble_after_jobs:
  assumes p: "partitioned N M td"
    and sched: "set schedule = {(t, i). t < N \<and> i < M}"
  shows "assemble N M (run_jobs cs schedule td) =
     concat (map (\<lambda>t. map (\<lambda>i. commandBuffer (td ! t) ! i)
                         (filter (\<lambda>i. cs (pos (objectData (td ! t) ! i))) [0..<M]))
               [0..<N])"
proof -
  have inr: "\<forall>(t, i)\<in>set schedule. t < N \<and> i < M" using sched by auto
  note eff = run_jobs_effect [OF p inr, of cs]
  let ?td = "run_jobs cs schedule td"
  have "map (\<lambda>i. commandBuffer (?td ! t) ! i)
            (filter (\<lambda>i. length (objectData (?td ! t)) > 0 \<and> visible (objectData (?td ! t) ! i)) [0..<M])
        = map (\<lambda>i. commandBuffer (td ! t) ! i)
            (filter (\<lambda>i. cs (pos (objectData (td ! t) ! i))) [0..<M])"
    if t: "t \<in> set [0..<N]" for t
  proof -
    from t have tN: "t < N" by simp
    have cb: "commandBuffer (?td ! t) = commandBuffer (td ! t)" using eff tN by blast
    have len: "length (objectData (?td ! t)) = M"
      using partitioned_nth [OF _ tN] eff by blast
    have vis: "visible (objectData (?td ! t) ! i) = cs (pos (objectData (td ! t) ! i))"
      if "i < M" for i
    proof -
      have "(t, i) \<in> set schedule" using sched tN that by simp
      moreover have "objectData (?td ! t) ! i
             = (if (t, i) \<in> set schedule
                then (objectData (td ! t) ! i)\<lparr>visible := cs (pos (objectData (td ! t) ! i))\<rparr>
                else objectData (td ! t) ! i)"
        using eff tN that by blast
      ultimately show ?thesis by simp
    qed
    have "filter (\<lambda>i. length (objectData (?td ! t)) > 0 \<and> visible (objectData (?td ! t) ! i)) [0..<M]
        = filter (\<lambda>i. cs (pos (objectData (td ! t) ! i))) [0..<M]"
      by (rule filter_cong [OF refl]) (auto simp: len vis)
    then show ?thesis by (simp add: cb)
  qed
  then have eq: "map (\<lambda>t. map (\<lambda>i. commandBuffer (?td ! t) ! i)
            (filter (\<lambda>i. length (objectData (?td ! t)) > 0 \<and> visible (objectData (?td ! t) ! i)) [0..<M])) [0..<N]
        = map (\<lambda>t. map (\<lambda>i. commandBuffer (td ! t) ! i)
            (filter (\<lambda>i. cs (pos (objectData (td ! t) ! i))) [0..<M])) [0..<N]"
    by (rule map_cong [OF refl])
  show ?thesis by (simp only: assemble_eq eq)
qed

lemma distinct_concat_nth:
  "distinct (concat xss) \<Longrightarrow> t < length xss \<Longrightarrow> t' < length xss
     \<Longrightarrow> i < length (xss ! t) \<Longrightarrow> i' < length (xss ! t') \<Longrightarrow> xss ! t ! i = xss ! t' ! i'
     \<Longrightarrow> t = t' \<and> i = i'"
proof (induction xss arbitrary: t t')
  case Nil
  then show ?case by simp
next
  case (Cons xs xss)
  from Cons.prems(1) have d: "distinct xs" "distinct (concat xss)"
    and dj: "set xs \<inter> set (concat xss) = {}"
    by auto
  have mem: "xss ! u ! j \<in> set (concat xss)" if "u < length xss" "j < length (xss ! u)" for u j
    using that by (auto intro!: bexI [of _ "xss ! u"])
  show ?case
  proof (cases t)
    case 0
    note t0 = this
    show ?thesis
    proof (cases t')
      case 0
      with t0 Cons.prems d show ?thesis by (simp add: nth_eq_iff_index_eq)
    next
      case (Suc u')
      with t0 Cons.prems have a: "i < length xs" and e: "xs ! i = xss ! u' ! i'"
        and b: "u' < length xss" "i' < length (xss ! u')" by simp_all
      from a have "xs ! i \<in> set xs" by simp
      with e mem [OF b] dj show ?thesis by auto
    qed
  next
    case (Suc u)
    note tS = this
    show ?thesis
    proof (cases t')
      case 0
      with tS Cons.prems have a: "i' < length xs" and e: "xss ! u ! i = xs ! i'"
        and b: "u < length xss" "i < length (xss ! u)" by simp_all
      from a have "xs ! i' \<in> set xs" by simp
      with e mem [OF b] dj show ?thesis by auto
    next
      case (Suc u')
      with tS Cons.prems Cons.IH [OF d(2), of u u'] show ?thesis by simp
    qed
  qed
qed



subsection \<open>Substring search and the sorting loop of \<open>Scene::render\<close>\<close>

lemma as_int_None: "as_int None = - 1"
  by (simp add: as_int_def)

lemma as_int_Some: "k < 2 ^ 31 \<Longrightarrow> as_int (Some k) = int k"
proof -
  assume k: "k < 2 ^ 31"
  have "signed_take_bit 31 (int k) = int k"
    by (rule signed_take_bit_int_eq_self) (use k in simp_all)
  then show ?thesis
    by (simp add: as_int_def signed_of_nat)
qed

lemma find_from_None: "find_from name pattern i = None \<longleftrightarrow> \<not> sublist pattern name"
  by (induction name arbitrary: i) (auto simp: sublist_Cons_right)

lemma find_from_bounds: "find_from name pattern i = Some k \<Longrightarrow> i \<le> k \<and> k \<le> i + length name"
proof (induction name arbitrary: i)
  case Nil
  then show ?case by (simp split: if_splits)
next
  case (Cons c cs)
  then show ?case by (fastforce split: if_splits)
qed

lemma found_positive:
  assumes len: "length name < 2 ^ 31" and nz: "string_find name pattern \<noteq> Some 0"
  shows "as_int (string_find name pattern) > 0 \<longleftrightarrow> sublist pattern name"
proof (cases "string_find name pattern")
  case None
  then show ?thesis
    using find_from_None [of name pattern 0] by (simp add: string_find_def as_int_None)
next
  case (Some k)
  with find_from_bounds [of name pattern 0 k] len have "k < 2 ^ 31"
    by (simp add: string_find_def)
  moreover from Some nz have "k > 0" by simp
  moreover from Some have "sublist pattern name"
    using find_from_None [of name pattern 0] by (simp add: string_find_def)
  ultimately show ?thesis using Some by (simp add: as_int_Some)
qed

lemma sort_meshes_gen:
  assumes step: "\<And>i bg al non. f i (bg, al, non) =
      (if \<not> shown i then (bg, al, non)
       else if A i then (bg, al @ [i], non)
       else if B i then (bg @ [i], al, non)
       else (bg, al, non @ [i]))"
  shows "fold f js (bg, al, non) =
     (bg @ filter (\<lambda>i. shown i \<and> \<not> A i \<and> B i) js,
      al @ filter (\<lambda>i. shown i \<and> A i) js,
      non @ filter (\<lambda>i. shown i \<and> \<not> A i \<and> \<not> B i) js)"
proof (induction js arbitrary: bg al non)
  case Nil
  then show ?case by simp
next
  case (Cons j js)
  show ?case by (simp add: step Cons.IH)
qed

lemma sort_meshes:
  "fold (sort_mesh single part names) js (bg, al, non) =
     (bg @ filter (\<lambda>i. \<not> (single \<and> i \<noteq> part)
                       \<and> \<not> as_int (string_find (names ! i) ''alpha'') > 0
                       \<and> as_int (string_find (names ! i) ''mask'') > 0) js,
      al @ filter (\<lambda>i. \<not> (single \<and> i \<noteq> part)
                       \<and> as_int (string_find (names ! i) ''alpha'') > 0) js,
      non @ filter (\<lambda>i. \<not> (single \<and> i \<noteq> part)
                       \<and> \<not> as_int (string_find (names ! i) ''alpha'') > 0
                       \<and> \<not> as_int (string_find (names ! i) ''mask'') > 0) js)"
  by (rule sort_meshes_gen) (simp add: sort_mesh_def Let_def)

lemma render_eq:
  "render single part names =
     filter (\<lambda>i. \<not> (single \<and> i \<noteq> part)
                  \<and> \<not> as_int (string_find (names ! i) ''alpha'') > 0
                  \<and> as_int (string_find (names ! i) ''mask'') > 0) [0..<length names]
     @ filter (\<lambda>i. \<not> (single \<and> i \<noteq> part)
                  \<and> \<not> as_int (string_find (names ! i) ''alpha'') > 0
                  \<and> \<not> as_int (string_find (names ! i) ''mask'') > 0) [0..<length names]
     @ filter (\<lambda>i. \<not> (single \<and> i \<noteq> part)
                  \<and> as_int (string_find (names ! i) ''alpha'') > 0) [0..<length names]"
  using sort_meshes [of single part names "[0..<length names]" "[]" "[]" "[]"]
  by (simp add: render_def)


lemma sublist_find: "sublist pattern name \<longleftrightarrow> find_from name pattern 0 \<noteq> None"
  by (simp add: find_from_None)

lemma render_masked_glass: "render False 0 masked_glass_names = [1, 0]"
  by (simp add: render_eq masked_glass_names_def string_find_def as_int_def upt_rec [of 0]
      upt_rec [of "Suc 0"] numeral_2_eq_2)

text \<open>
  A material name that starts with the pattern is found at position 0, which the
  comparison \<open>> 0\<close> of \<open>Scene::render\<close> takes as not found (\<open>loadMaterials\<close> compares with
  \<open>>= 0\<close>): the mesh is drawn in the standard bucket.
\<close>

lemma render_leading_alpha: "render False 0 [''alpha_glass'', ''wall''] = [0, 1]"
  by (simp add: render_eq string_find_def as_int_def upt_rec [of 0] upt_rec [of "Suc 0"]
      numeral_2_eq_2)

subsection \<open>The assembled command buffers\<close>

text \<open>
  C1. Take thread data laid out as \<open>prepareMultiThreadedRenderer\<close> leaves it, and let the
  dispatched jobs of the frame run in any order \<open>schedule\<close>, each once. The list
  assembled by \<open>updateCommandBuffers\<close> is then, worker by worker from 0 to \<open>N - 1\<close> and
  within a worker slot by slot from 0 to \<open>M - 1\<close>, the command buffers of exactly the
  objects whose frustum test passed; it is the argument of the execute-commands call,
  which is made when the list is not empty. With command-buffer handles that are
  pairwise different, the buffer of an object \<open>(t, i)\<close> is in the list if and only if
  the test of that object passed, so no buffer of an object outside the frustum is
  included. The thread data keep their layout, so the same holds for the next frame.
\<close>

theorem assembled_visible_buffers:
  assumes p: "partitioned N M threadData"
    and sched: "mset schedule = mset (concat (dispatch_jobs N M (replicate N [])))"
  shows "fst (snd (updateCommandBuffers checkSphere schedule N M threadData)) =
           concat (map (\<lambda>t. map (\<lambda>i. commandBuffer (threadData ! t) ! i)
                               (filter (\<lambda>i. checkSphere (pos (objectData (threadData ! t) ! i)))
                                  [0..<M]))
                     [0..<N])
       \<and> snd (snd (updateCommandBuffers checkSphere schedule N M threadData)) =
           (if fst (snd (updateCommandBuffers checkSphere schedule N M threadData)) = [] then None
            else Some (fst (snd (updateCommandBuffers checkSphere schedule N M threadData))))
       \<and> (distinct (concat (map commandBuffer threadData)) \<and> t < N \<and> i < M \<longrightarrow>
            (commandBuffer (threadData ! t) ! i
               \<in> set (fst (snd (updateCommandBuffers checkSphere schedule N M threadData)))
             \<longleftrightarrow> checkSphere (pos (objectData (threadData ! t) ! i))))
       \<and> partitioned N M (fst (updateCommandBuffers checkSphere schedule N M threadData))"
proof -
  let ?cbs = "concat (map (\<lambda>t. map (\<lambda>i. commandBuffer (threadData ! t) ! i)
                               (filter (\<lambda>i. checkSphere (pos (objectData (threadData ! t) ! i)))
                                  [0..<M]))
                     [0..<N])"
  have s: "set schedule = {(t, i). t < N \<and> i < M}"
    using mset_eq_setD [OF sched] by (simp only: dispatched_jobs_set)
  have inr: "\<forall>(t, i)\<in>set schedule. t < N \<and> i < M" using s by auto
  have a: "fst (snd (updateCommandBuffers checkSphere schedule N M threadData)) = ?cbs"
    by (simp add: updateCommandBuffers_def Let_def assemble_after_jobs [OF p s])
  have b: "snd (snd (updateCommandBuffers checkSphere schedule N M threadData)) =
           (if fst (snd (updateCommandBuffers checkSphere schedule N M threadData)) = [] then None
            else Some (fst (snd (updateCommandBuffers checkSphere schedule N M threadData))))"
    by (simp add: updateCommandBuffers_def Let_def)
  have c: "partitioned N M (fst (updateCommandBuffers checkSphere schedule N M threadData))"
    using run_jobs_effect [OF p inr, of checkSphere]
    by (simp add: updateCommandBuffers_def Let_def)
  have len: "length (map commandBuffer threadData) = N"
    using partitioned_length [OF p] by simp
  have m: "commandBuffer (threadData ! t) ! i \<in> set ?cbs
           \<longleftrightarrow> checkSphere (pos (objectData (threadData ! t) ! i))"
    if d: "distinct (concat (map commandBuffer threadData))" and t: "t < N" and i: "i < M"
  proof
    assume "commandBuffer (threadData ! t) ! i \<in> set ?cbs"
    then obtain t' i' where t': "t' < N" and i': "i' < M"
      and chk: "checkSphere (pos (objectData (threadData ! t') ! i'))"
      and e: "commandBuffer (threadData ! t) ! i = commandBuffer (threadData ! t') ! i'"
      by auto
    have "t = t' \<and> i = i'"
    proof (rule distinct_concat_nth [OF d])
      show "t < length (map commandBuffer threadData)" using t len by simp
      show "t' < length (map commandBuffer threadData)" using t' len by simp
      show "i < length (map commandBuffer threadData ! t)"
        using partitioned_nth [OF p t] partitioned_length [OF p] t i by simp
      show "i' < length (map commandBuffer threadData ! t')"
        using partitioned_nth [OF p t'] partitioned_length [OF p] t' i' by simp
      show "map commandBuffer threadData ! t ! i = map commandBuffer threadData ! t' ! i'"
        using e partitioned_length [OF p] t t' by simp
    qed
    with chk show "checkSphere (pos (objectData (threadData ! t) ! i))" by simp
  next
    assume "checkSphere (pos (objectData (threadData ! t) ! i))"
    with t i show "commandBuffer (threadData ! t) ! i \<in> set ?cbs" by auto
  qed
  from m have m': "distinct (concat (map commandBuffer threadData)) \<and> t < N \<and> i < M \<longrightarrow>
            (commandBuffer (threadData ! t) ! i
               \<in> set (fst (snd (updateCommandBuffers checkSphere schedule N M threadData)))
             \<longleftrightarrow> checkSphere (pos (objectData (threadData ! t) ! i)))"
    unfolding a by blast
  from a b c m' show ?thesis by (intro conjI)
qed

theorem assembled_visible_buffers_witness:
  "partitioned 2 2 example_threads
   \<and> fst (snd (updateCommandBuffers (\<lambda>p. p > 0) [(1, 1), (0, 0), (1, 0), (0, 1)] 2 2 example_threads))
       = [100, 111]
   \<and> 101 \<notin> set (fst (snd (updateCommandBuffers (\<lambda>p. p > 0) [(1, 1), (0, 0), (1, 0), (0, 1)] 2 2
                            example_threads)))"
proof -
  have p: "partitioned 2 2 example_threads"
    by (simp add: partitioned_def example_threads_def)
  have two: "[0..<2] = [0, Suc 0]" by (simp add: upt_rec numeral_2_eq_2)
  have sched: "mset [(1, 1), (0, 0), (1, 0), (0, 1)]
                 = mset (concat (dispatch_jobs 2 2 (replicate 2 [])))"
    by (simp add: dispatch_jobs_queues two)
  have d: "distinct (concat (map commandBuffer example_threads))"
    by (simp add: example_threads_def)
  have t: "(0 :: nat) < 2" and i: "(1 :: nat) < 2" by simp_all
  from assembled_visible_buffers [OF p sched, where checkSphere = "\<lambda>p. p > 0" and t = 0 and i = 1]
    p d t i
  show ?thesis
    by (simp add: two example_threads_def)
qed

subsection \<open>Disjoint graphics and present families\<close>

text \<open>
  C2 as stated fails in \<open>VulkanSwapChain::initSurface\<close>: for a graphics-only family
  followed by a present-only family the search returns the indices 0 and 1, and the
  method then exits; no swapchain is created.
\<close>

theorem split_families_counterexample:
  "list_ex is_graphics (families split_report) \<and> list_ex is_present (families split_report)
   \<and> \<not> list_ex (\<lambda>q. is_graphics q \<and> is_present q) (families split_report)
   \<and> find_queues (families split_report) = (0, 1)
   \<and> initSurface split_report 1 fresh_object =
       Inl (Exit ''Separate graphics and presenting queues are not supported yet!'')"
proof -
  have "list_ex is_graphics (families split_report) \<and> list_ex is_present (families split_report)
   \<and> \<not> list_ex (\<lambda>q. is_graphics q \<and> is_present q) (families split_report)"
    by (simp add: example_defs is_graphics_def is_present_def VK_QUEUE_GRAPHICS_BIT_def VK_TRUE_def)
  then show ?thesis
    by (simp add: find_queues_split_report initSurface_split_report)
qed

text \<open>
  C2 (amended). For every queue-family list with no family that is both graphics-capable
  and present-capable, but with at least one of each, the search returns two distinct
  indices, the first graphics-capable and the first present-capable family. In
  \<open>sample_main\<close> of test1.cpp (given at least one surface format) the swapchain create
  info then has concurrent sharing mode and lists both indices. In
  \<open>VulkanSwapChain::initSurface\<close> the same two indices end the process with
  "Separate graphics and presenting queues are not supported yet!".
\<close>

theorem split_families_selection:
  assumes len: "length (families r) \<le> UINT32_MAX"
    and none: "\<forall>q\<in>set (families r). \<not> (is_graphics q \<and> is_present q)"
    and g: "\<exists>q\<in>set (families r). is_graphics q"
    and p: "\<exists>q\<in>set (families r). is_present q"
    and fs: "formats r \<noteq> []"
  shows "\<exists>gi pi ci.
           gi = first_index is_graphics (families r) \<and> pi = first_index is_present (families r)
           \<and> find_queues (families r) = (gi, pi) \<and> gi \<noteq> pi
           \<and> sample_main r w h = Inr ci
           \<and> ci_imageSharingMode ci = VK_SHARING_MODE_CONCURRENT
           \<and> ci_queueFamilyIndexCount ci = 2
           \<and> ci_pQueueFamilyIndices ci = [gi, pi]
           \<and> initSurface r created s =
               Inl (Exit ''Separate graphics and presenting queues are not supported yet!'')"
proof -
  note q = find_queues_split [OF len none g p]
  have ne: "families r \<noteq> []" using g by auto
  have "sample_main r w h = Inr (projr (sample_main r w h))"
    using q fs by (simp add: sample_main_cases)
  moreover have "ci_imageSharingMode (projr (sample_main r w h)) = VK_SHARING_MODE_CONCURRENT"
    using q fs by (simp add: sample_main_cases)
  moreover have "ci_queueFamilyIndexCount (projr (sample_main r w h)) = 2"
    using q fs by (simp add: sample_main_cases)
  moreover have "ci_pQueueFamilyIndices (projr (sample_main r w h))
      = [first_index is_graphics (families r), first_index is_present (families r)]"
    using q fs by (simp add: sample_main_cases)
  moreover have "initSurface r created s =
               Inl (Exit ''Separate graphics and presenting queues are not supported yet!'')"
    using q ne by (simp add: initSurface_cases)
  ultimately show ?thesis using q(1,2) by blast
qed

theorem split_families_selection_witness:
  "find_queues (families split_report) = (0, 1)
   \<and> ci_imageSharingMode (projr (sample_main split_report 800 600)) = VK_SHARING_MODE_CONCURRENT
   \<and> ci_pQueueFamilyIndices (projr (sample_main split_report 800 600)) = [0, 1]"
proof -
  have len: "length (families split_report) \<le> UINT32_MAX"
    by (simp add: split_report_def UINT32_MAX_def)
  have none: "\<forall>q\<in>set (families split_report). \<not> (is_graphics q \<and> is_present q)"
    by (simp add: example_defs is_graphics_def is_present_def VK_QUEUE_GRAPHICS_BIT_def VK_TRUE_def)
  have g: "\<exists>q\<in>set (families split_report). is_graphics q"
    by (simp add: example_defs is_graphics_def is_present_def VK_QUEUE_GRAPHICS_BIT_def VK_TRUE_def)
  have p: "\<exists>q\<in>set (families split_report). is_present q"
    by (simp add: example_defs is_graphics_def is_present_def VK_QUEUE_GRAPHICS_BIT_def VK_TRUE_def)
  have fs: "formats split_report \<noteq> []"
    by (simp add: split_report_def)
  from split_families_selection [OF len none g p fs, of 800 600 1 fresh_object]
  show ?thesis
    by (auto simp: find_queues_split_report)
qed

subsection \<open>Swapchain extent\<close>

text \<open>
  C3 as stated fails in \<open>VulkanSwapChain::create\<close>: with an undefined current extent and
  a maximum extent of 4096 x 4096, a request of 5000 x 5000 is passed to the driver
  unchanged, where clamping would give 4096 x 4096. It also fails in \<open>sample_main\<close> when
  the current extent is defined, here 800 x 600, which is then used whatever is requested.
\<close>

theorem swapchain_extent_counterexample:
  "\<not> isl (create combined_report example_reply fresh_object 5000 5000 False)
   \<and> ci_imageExtent (cr_ci (projr (create combined_report example_reply fresh_object 5000 5000 False)))
       = \<lparr> width = 5000, height = 5000 \<rparr>
   \<and> clamp_extent (minImageExtent (caps combined_report)) (maxImageExtent (caps combined_report))
        \<lparr> width = 5000, height = 5000 \<rparr> = \<lparr> width = 4096, height = 4096 \<rparr>
   \<and> \<not> isl (sample_main sized_report 5000 5000)
   \<and> ci_imageExtent (projr (sample_main sized_report 5000 5000)) = \<lparr> width = 800, height = 600 \<rparr>
   \<and> clamp_extent (minImageExtent (caps sized_report)) (maxImageExtent (caps sized_report))
        \<lparr> width = 5000, height = 5000 \<rparr> = \<lparr> width = 4096, height = 4096 \<rparr>"
proof -
  have "clamp_extent (minImageExtent (caps sized_report)) (maxImageExtent (caps sized_report))
        \<lparr> width = 5000, height = 5000 \<rparr> = \<lparr> width = 4096, height = 4096 \<rparr>"
    by (simp add: clamp_extent_def sized_report_def combined_report_def example_caps_def)
  moreover
  have "clamp_extent (minImageExtent (caps combined_report)) (maxImageExtent (caps combined_report))
        \<lparr> width = 5000, height = 5000 \<rparr> = \<lparr> width = 4096, height = 4096 \<rparr>"
    by (simp add: clamp_extent_def combined_report_def example_caps_def)
  ultimately show ?thesis by (simp add: create_combined sample_main_sized)
qed

text \<open>
  C3 (amended). Let the surface report a minimum extent that is component-wise at most
  the maximum extent. In \<open>sample_main\<close> of test1.cpp the extent used to create the
  swapchain is the requested size clamped component-wise to the range when the current
  extent is undefined (width \<open>0xFFFFFFFF\<close>), and the current extent otherwise. In
  \<open>VulkanSwapChain::create\<close> it is the requested size, unclamped, when the current extent
  is undefined, and the current extent otherwise.
\<close>

theorem swapchain_extent_used:
  assumes "width (minImageExtent (caps r)) \<le> width (maxImageExtent (caps r))"
    and "height (minImageExtent (caps r)) \<le> height (maxImageExtent (caps r))"
  shows "(sample_main r w h = Inr ci \<longrightarrow>
            ci_imageExtent ci =
              (if width (currentExtent (caps r)) = 0xFFFFFFFF
               then clamp_extent (minImageExtent (caps r)) (maxImageExtent (caps r))
                      \<lparr> width = w, height = h \<rparr>
               else currentExtent (caps r)))
       \<and> (create r d s w h v = Inr res \<longrightarrow>
            ci_imageExtent (cr_ci res) =
              (if width (currentExtent (caps r)) = 0xFFFFFFFF then \<lparr> width = w, height = h \<rparr>
               else currentExtent (caps r)))"
proof -
  have "ci_imageExtent ci = test1_extent (caps r) w h" if "sample_main r w h = Inr ci"
    using that by (auto simp: sample_main_cases split: if_splits)
  then show ?thesis
    using create_ci(2) [of r d s w h v res] by (auto simp: test1_extent_clamp [OF assms])
qed

theorem swapchain_extent_used_witness:
  "ci_imageExtent (projr (sample_main combined_report 5000 300)) = \<lparr> width = 4096, height = 300 \<rparr>
   \<and> ci_imageExtent (cr_ci (projr (create combined_report example_reply fresh_object 5000 300 False)))
       = \<lparr> width = 5000, height = 300 \<rparr>"
proof -
  have h1: "width (minImageExtent (caps combined_report)) \<le> width (maxImageExtent (caps combined_report))"
    by (simp add: combined_report_def example_caps_def)
  have h2: "height (minImageExtent (caps combined_report)) \<le> height (maxImageExtent (caps combined_report))"
    by (simp add: combined_report_def example_caps_def)
  obtain ci where m: "sample_main combined_report 5000 300 = Inr ci"
    by (simp add: sample_main_combined)
  obtain res where c: "create combined_report example_reply fresh_object 5000 300 False = Inr res"
    by (simp add: create_combined)
  have cl: "clamp_extent (minImageExtent (caps combined_report)) (maxImageExtent (caps combined_report))
        \<lparr> width = 5000, height = 300 \<rparr> = \<lparr> width = 4096, height = 300 \<rparr>"
    by (simp add: clamp_extent_def combined_report_def example_caps_def)
  have cur: "width (currentExtent (caps combined_report)) = 0xFFFFFFFF"
    by (simp add: combined_report_def example_caps_def)
  from swapchain_extent_used [OF h1 h2, of 5000 300 ci example_reply fresh_object False res] m c
  have "ci_imageExtent ci = \<lparr> width = 4096, height = 300 \<rparr>
      \<and> ci_imageExtent (cr_ci res) = \<lparr> width = 5000, height = 300 \<rparr>"
    by (simp add: cl cur)
  with m c show ?thesis by simp
qed

subsection \<open>Image count\<close>

text \<open>
  C4 as stated fails in test1.cpp: with \<open>minImageCount = 2\<close> and \<open>maxImageCount = 8\<close> the
  claimed count is 3, and \<open>sample_main\<close> asks for 2.
\<close>

theorem image_count_counterexample:
  "\<not> isl (sample_main combined_report 800 600)
   \<and> claimed_image_count (caps combined_report) = 3
   \<and> ci_minImageCount (projr (sample_main combined_report 800 600)) = 2"
proof -
  have "claimed_image_count (caps combined_report) = 3"
    by (simp add: claimed_image_count_def combined_report_def example_caps_def)
  then show ?thesis by (simp add: sample_main_combined)
qed

text \<open>
  C4 (amended). In \<open>VulkanSwapChain::create\<close> the image count requested from the driver is
  \<open>minImageCount + 1\<close> in 32-bit unsigned arithmetic, reduced to \<open>maxImageCount\<close> when
  that is nonzero and smaller. In \<open>sample_main\<close> of test1.cpp the count requested is
  \<open>minImageCount\<close> itself.
\<close>

theorem image_count_requested:
  "(create r d s w h v = Inr res \<longrightarrow>
      ci_minImageCount (cr_ci res) =
        (if maxImageCount (caps r) \<noteq> 0
         then min (minImageCount (caps r) + 1) (maxImageCount (caps r))
         else minImageCount (caps r) + 1))
   \<and> (sample_main r w' h' = Inr ci \<longrightarrow> ci_minImageCount ci = minImageCount (caps r))"
  by (auto simp: create_ci(1) sample_main_cases split: if_splits)

theorem image_count_requested_witness:
  "\<not> isl (create combined_report example_reply fresh_object 800 600 False)
   \<and> ci_minImageCount (cr_ci (projr (create combined_report example_reply fresh_object 800 600 False))) = 3
   \<and> \<not> isl (sample_main combined_report 800 600)
   \<and> ci_minImageCount (projr (sample_main combined_report 800 600)) = 2"
proof -
  obtain res where c: "create combined_report example_reply fresh_object 800 600 False = Inr res"
    by (simp add: create_combined)
  obtain ci where m: "sample_main combined_report 800 600 = Inr ci"
    by (simp add: sample_main_combined)
  have caps: "minImageCount (caps combined_report) = 2" "maxImageCount (caps combined_report) = 8"
    by (simp_all add: combined_report_def example_caps_def)
  from image_count_requested [of combined_report example_reply fresh_object 800 600 False res
      800 600 ci] c m
  have "ci_minImageCount (cr_ci res) = 3 \<and> ci_minImageCount ci = 2"
    by (simp add: caps)
  with c m show ?thesis by simp
qed

subsection \<open>Draw order of the scene\<close>

text \<open>
  C5 as stated fails: a mesh whose material name contains both "alpha" and "mask" is
  drawn in the alpha bucket, after the standard meshes, and not first.
\<close>

theorem scene_draw_order_counterexample:
  "render False 0 masked_glass_names = [1, 0]
   \<and> claimed_draw_order False 0 masked_glass_names = [0, 1, 0]"
proof -
  have "claimed_draw_order False 0 masked_glass_names = [0, 1, 0]"
    by (simp add: claimed_draw_order_def masked_glass_names_def sublist_find upt_rec [of 0]
      upt_rec [of "Suc 0"] numeral_2_eq_2)
  then show ?thesis by (simp add: render_masked_glass)
qed

text \<open>
  C5 (amended). Let every material name be shorter than \<open>2^31\<close> characters and have
  neither "alpha" nor "mask" first occurring at position 0. Of the meshes not skipped by
  \<open>renderSingleScenePart\<close>, \<open>Scene::render\<close> draws first those whose material name
  contains "mask" and not "alpha", then those whose name contains neither, then those
  whose name contains "alpha" (with or without "mask"), each bucket in index order;
  every such mesh is drawn exactly once.
\<close>

theorem scene_draw_order:
  assumes names: "\<forall>name\<in>set names. length name < 2 ^ 31
                     \<and> string_find name ''alpha'' \<noteq> Some 0 \<and> string_find name ''mask'' \<noteq> Some 0"
  shows "render renderSingleScenePart scenePartIndex names =
           filter (\<lambda>i. \<not> (renderSingleScenePart \<and> i \<noteq> scenePartIndex)
                        \<and> sublist ''mask'' (names ! i) \<and> \<not> sublist ''alpha'' (names ! i))
             [0..<length names]
           @ filter (\<lambda>i. \<not> (renderSingleScenePart \<and> i \<noteq> scenePartIndex)
                        \<and> \<not> sublist ''mask'' (names ! i) \<and> \<not> sublist ''alpha'' (names ! i))
               [0..<length names]
           @ filter (\<lambda>i. \<not> (renderSingleScenePart \<and> i \<noteq> scenePartIndex)
                        \<and> sublist ''alpha'' (names ! i))
               [0..<length names]
       \<and> distinct (render renderSingleScenePart scenePartIndex names)
       \<and> set (render renderSingleScenePart scenePartIndex names)
           = {i. i < length names \<and> \<not> (renderSingleScenePart \<and> i \<noteq> scenePartIndex)}"
proof -
  have al: "as_int (string_find (names ! i) ''alpha'') > 0 \<longleftrightarrow> sublist ''alpha'' (names ! i)"
    if "i \<in> set [0..<length names]" for i
    using that names by (intro found_positive) auto
  have ma: "as_int (string_find (names ! i) ''mask'') > 0 \<longleftrightarrow> sublist ''mask'' (names ! i)"
    if "i \<in> set [0..<length names]" for i
    using that names by (intro found_positive) auto
  have f1: "filter (\<lambda>i. \<not> (renderSingleScenePart \<and> i \<noteq> scenePartIndex)
                  \<and> \<not> as_int (string_find (names ! i) ''alpha'') > 0
                  \<and> as_int (string_find (names ! i) ''mask'') > 0) [0..<length names]
          = filter (\<lambda>i. \<not> (renderSingleScenePart \<and> i \<noteq> scenePartIndex)
                        \<and> sublist ''mask'' (names ! i) \<and> \<not> sublist ''alpha'' (names ! i))
             [0..<length names]"
    by (rule filter_cong [OF refl]) (auto simp: al ma)
  have f2: "filter (\<lambda>i. \<not> (renderSingleScenePart \<and> i \<noteq> scenePartIndex)
                  \<and> \<not> as_int (string_find (names ! i) ''alpha'') > 0
                  \<and> \<not> as_int (string_find (names ! i) ''mask'') > 0) [0..<length names]
          = filter (\<lambda>i. \<not> (renderSingleScenePart \<and> i \<noteq> scenePartIndex)
                        \<and> \<not> sublist ''mask'' (names ! i) \<and> \<not> sublist ''alpha'' (names ! i))
               [0..<length names]"
    by (rule filter_cong [OF refl]) (auto simp: al ma)
  have f3: "filter (\<lambda>i. \<not> (renderSingleScenePart \<and> i \<noteq> scenePartIndex)
                  \<and> as_int (string_find (names ! i) ''alpha'') > 0) [0..<length names]
          = filter (\<lambda>i. \<not> (renderSingleScenePart \<and> i \<noteq> scenePartIndex)
                        \<and> sublist ''alpha'' (names ! i))
               [0..<length names]"
    by (rule filter_cong [OF refl]) (auto simp: al ma)
  have order: "render renderSingleScenePart scenePartIndex names =
           filter (\<lambda>i. \<not> (renderSingleScenePart \<and> i \<noteq> scenePartIndex)
                        \<and> sublist ''mask'' (names ! i) \<and> \<not> sublist ''alpha'' (names ! i))
             [0..<length names]
           @ filter (\<lambda>i. \<not> (renderSingleScenePart \<and> i \<noteq> scenePartIndex)
                        \<and> \<not> sublist ''mask'' (names ! i) \<and> \<not> sublist ''alpha'' (names ! i))
               [0..<length names]
           @ filter (\<lambda>i. \<not> (renderSingleScenePart \<and> i \<noteq> scenePartIndex)
                        \<and> sublist ''alpha'' (names ! i))
               [0..<length names]"
    by (simp only: render_eq f1 f2 f3)
  have once: "distinct (render renderSingleScenePart scenePartIndex names)"
    unfolding order by auto
  have all: "set (render renderSingleScenePart scenePartIndex names)
           = {i. i < length names \<and> \<not> (renderSingleScenePart \<and> i \<noteq> scenePartIndex)}"
    unfolding order by auto
  from order once all show ?thesis by blast
qed

theorem scene_draw_order_witness:
  "list_all (\<lambda>name. length name < 2 ^ 31) scene_names
   \<and> render False 0 scene_names = [2, 1, 0]
   \<and> distinct (render False 0 scene_names)"
proof -
  have short: "list_all (\<lambda>name. length name < 2 ^ 31) scene_names"
    by (simp add: scene_names_def)
  have names: "\<forall>name\<in>set scene_names. length name < 2 ^ 31
        \<and> string_find name ''alpha'' \<noteq> Some 0 \<and> string_find name ''mask'' \<noteq> Some 0"
    by (simp add: scene_names_def string_find_def)
  have three: "[0..<length scene_names] = [0, Suc 0, 2]"
    by (simp add: scene_names_def upt_rec [of 0] upt_rec [of "Suc 0"] upt_rec [of "Suc (Suc 0)"])
  have sub: "\<not> sublist ''mask'' (scene_names ! 0)" "sublist ''alpha'' (scene_names ! 0)"
    "\<not> sublist ''mask'' (scene_names ! Suc 0)" "\<not> sublist ''alpha'' (scene_names ! Suc 0)"
    "sublist ''mask'' (scene_names ! 2)" "\<not> sublist ''alpha'' (scene_names ! 2)"
    by (simp_all add: scene_names_def sublist_find)
  from scene_draw_order [OF names, of False 0] short show ?thesis
    unfolding three by (simp add: sub)
qed

subsection \<open>Swapchain recreation\<close>

text \<open>
  C6 as stated fails: in a second \<open>create\<close> on an object holding swapchain 2 with the
  views 30 and 31, the old views and the old swapchain are destroyed by the calls 2 to
  4, the views 50 and 51 of the new swapchain 3 are created by the calls 7 and 8. After
  four calls neither the old nor the new swapchain is usable with its views.
\<close>

theorem recreation_order_counterexample:
  "cr_calls (projr (create combined_report second_reply created_object 800 600 False)) =
     [CreateSwapchainKHR
        (cr_ci (projr (create combined_report second_reply created_object 800 600 False))) 3,
      DestroyImageView 30, DestroyImageView 31, DestroySwapchainKHR 2,
      GetSwapchainImagesKHR 3, GetSwapchainImagesKHR 3,
      CreateImageView 40 50, CreateImageView 41 51]
   \<and> map view (buffers (cr_object
         (projr (create combined_report second_reply created_object 800 600 False)))) = [50, 51]
   \<and> \<not> usable (run_calls
         (take 4 (cr_calls (projr (create combined_report second_reply created_object 800 600 False))))
         created_driver_state) 2 [30, 31]
   \<and> \<not> usable (run_calls
         (take 4 (cr_calls (projr (create combined_report second_reply created_object 800 600 False))))
         created_driver_state) 3 [50, 51]"
proof -
  note c = create_recreated [of 800 600]
  have old: "swapChain created_object \<noteq> VK_NULL_HANDLE"
    and cnt: "imageCount created_object = length (buffers created_object)"
    by (simp_all add: created_object_def VK_NULL_HANDLE_def)
  have calls: "cr_calls (projr (create combined_report second_reply created_object 800 600 False)) =
     [CreateSwapchainKHR
        (cr_ci (projr (create combined_report second_reply created_object 800 600 False))) 3,
      DestroyImageView 30, DestroyImageView 31, DestroySwapchainKHR 2,
      GetSwapchainImagesKHR 3, GetSwapchainImagesKHR 3,
      CreateImageView 40 50, CreateImageView 41 51]"
    unfolding recreate_calls [OF c old cnt]
    by (simp add: created_object_def second_reply_def)
  have views: "map view (buffers (cr_object
         (projr (create combined_report second_reply created_object 800 600 False)))) = [50, 51]"
    unfolding create_calls(4) [OF c] by (simp add: second_reply_def)
  show ?thesis
    unfolding calls views
    by (simp add: usable_def run_calls_def created_driver_state_def)
qed

text \<open>
  C6 (amended). When \<open>create\<close> runs on an object that holds a swapchain (with
  \<open>imageCount\<close> buffers) and the driver returns a different handle, the calls are, in
  this order: creation of the new swapchain with the old handle as \<open>oldSwapchain\<close>,
  destruction of the old image views, destruction of the old swapchain, the two image
  queries, creation of the new image views. So the old swapchain and its views are
  destroyed after the new swapchain handle exists and before its image views do; after
  any number \<open>k\<close> of these calls the old or the new swapchain handle is alive; after all
  of them the new swapchain is usable with its views and the old handle is gone.
\<close>

theorem recreation_keeps_a_swapchain:
  assumes c: "create r d s w h v = Inr res"
    and old: "swapChain s \<noteq> VK_NULL_HANDLE"
    and cnt: "imageCount s = length (buffers s)"
    and fresh: "new_swapChain d \<noteq> swapChain s"
    and live: "swapChain s \<in> live_swapchains ds"
    and k: "k \<le> length (cr_calls res)"
  shows "cr_calls res =
           [CreateSwapchainKHR (cr_ci res) (new_swapChain d)]
           @ map DestroyImageView (map view (buffers s))
           @ [DestroySwapchainKHR (swapChain s)]
           @ [GetSwapchainImagesKHR (new_swapChain d), GetSwapchainImagesKHR (new_swapChain d)]
           @ map (\<lambda>im. CreateImageView im (new_view d im)) (new_images d)
       \<and> ci_oldSwapchain (cr_ci res) = swapChain s
       \<and> (swapChain s \<in> live_swapchains (run_calls (take k (cr_calls res)) ds)
            \<or> new_swapChain d \<in> live_swapchains (run_calls (take k (cr_calls res)) ds))
       \<and> usable (run_calls (cr_calls res) ds) (swapChain (cr_object res))
            (map view (buffers (cr_object res)))
       \<and> swapChain s \<notin> live_swapchains (run_calls (cr_calls res) ds)"
proof -
  let ?new = "new_swapChain d"
  let ?rest = "map (\<lambda>i. DestroyImageView (view (buffers s ! i))) [0..<length (buffers s)]
             @ [DestroySwapchainKHR (swapChain s),
                GetSwapchainImagesKHR ?new, GetSwapchainImagesKHR ?new]
             @ map (\<lambda>im. CreateImageView im (new_view d im)) (new_images d)"
  let ?first = "CreateSwapchainKHR (cr_ci res) ?new"
  note calls = recreate_calls [OF c old cnt]
  have shape: "cr_calls res =
           [?first] @ map DestroyImageView (map view (buffers s))
           @ [DestroySwapchainKHR (swapChain s)]
           @ [GetSwapchainImagesKHR ?new, GetSwapchainImagesKHR ?new]
           @ map (\<lambda>im. CreateImageView im (new_view d im)) (new_images d)"
    unfolding calls using map_nth_upt [of "\<lambda>b. DestroyImageView (view b)" "buffers s"]
    by simp
  have keep: "DestroySwapchainKHR ?new \<notin> set ?rest"
    using fresh by auto
  have during: "swapChain s \<in> live_swapchains (run_calls (take k (cr_calls res)) ds)
            \<or> ?new \<in> live_swapchains (run_calls (take k (cr_calls res)) ds)"
  proof (cases k)
    case 0
    then show ?thesis using live by (simp add: run_calls_Nil)
  next
    case (Suc j)
    have "DestroySwapchainKHR ?new \<notin> set (take j ?rest)"
      using keep set_take_subset [of j ?rest] by blast
    moreover have "?new \<in> live_swapchains (apply_call ?first ds)" by simp
    ultimately have "?new \<in> live_swapchains (run_calls (take j ?rest) (apply_call ?first ds))"
      by (rule swapchain_stays_live [rotated])
    then show ?thesis
      unfolding calls Suc by (simp add: run_calls_Cons)
  qed
  have chains: "live_swapchains (run_calls (cr_calls res) ds)
                  = insert ?new (live_swapchains ds) - {swapChain s}"
    unfolding calls
    by (simp add: run_calls_Cons run_calls_append run_calls_Nil views_created_chains
        views_destroyed_chains)
  have views: "new_view d ` set (new_images d) \<subseteq> live_views (run_calls (cr_calls res) ds)"
    unfolding calls
    by (simp add: run_calls_Cons run_calls_append run_calls_Nil views_created)
  have after: "usable (run_calls (cr_calls res) ds) (swapChain (cr_object res))
            (map view (buffers (cr_object res)))"
    unfolding usable_def create_calls(3,4) [OF c] chains
    using fresh views by auto
  have gone: "swapChain s \<notin> live_swapchains (run_calls (cr_calls res) ds)"
    unfolding chains by simp
  from shape create_calls(2) [OF c] during after gone show ?thesis by blast
qed


theorem recreation_keeps_a_swapchain_witness:
  "(2 \<in> live_swapchains (run_calls
        (take 4 (cr_calls (projr (create combined_report second_reply created_object 800 600 False))))
        created_driver_state)
    \<or> 3 \<in> live_swapchains (run_calls
        (take 4 (cr_calls (projr (create combined_report second_reply created_object 800 600 False))))
        created_driver_state))
   \<and> usable (run_calls
        (cr_calls (projr (create combined_report second_reply created_object 800 600 False)))
        created_driver_state) 3 [50, 51]
   \<and> 2 \<notin> live_swapchains (run_calls
        (cr_calls (projr (create combined_report second_reply created_object 800 600 False)))
        created_driver_state)"
proof -
  note c = create_recreated [of 800 600]
  have old: "swapChain created_object \<noteq> VK_NULL_HANDLE"
    and cnt: "imageCount created_object = length (buffers created_object)"
    and fresh: "new_swapChain second_reply \<noteq> swapChain created_object"
    and live: "swapChain created_object \<in> live_swapchains created_driver_state"
    by (simp_all add: created_object_def VK_NULL_HANDLE_def second_reply_def
        created_driver_state_def)
  have k: "4 \<le> length (cr_calls (projr (create combined_report second_reply created_object 800 600 False)))"
    unfolding recreate_calls [OF c old cnt]
    by (simp add: created_object_def second_reply_def)
  have new: "swapChain (cr_object (projr (create combined_report second_reply created_object 800 600 False))) = 3"
    unfolding create_calls(3) [OF c] by (simp add: second_reply_def)
  have views: "map view (buffers (cr_object
         (projr (create combined_report second_reply created_object 800 600 False)))) = [50, 51]"
    unfolding create_calls(4) [OF c] by (simp add: second_reply_def)
  have ids: "swapChain created_object = 2" "new_swapChain second_reply = 3"
    by (simp_all add: created_object_def second_reply_def)
  from recreation_keeps_a_swapchain [OF c old cnt fresh live k]
  show ?thesis unfolding new views ids by blast
qed

subsection \<open>Surface format\<close>

text \<open>
  C7. Let the surface report at least one format, and let the queue search have found
  what the method needs to get as far as the format (test1.cpp: both indices;
  \<open>initSurface\<close>: one family for both roles). If the report is exactly one format and
  that format is \<open>VK_FORMAT_UNDEFINED\<close>, the format selected is
  \<open>VK_FORMAT_B8G8R8A8_UNORM\<close> and the method does not fail; in every other case the
  format selected is one of the reported formats.
\<close>

theorem surface_format_selection:
  assumes fs: "formats r \<noteq> []"
  shows "(fst (find_queues (families r)) \<noteq> UINT32_MAX \<and> snd (find_queues (families r)) \<noteq> UINT32_MAX \<longrightarrow>
           (\<exists>ci. sample_main r w h = Inr ci
              \<and> (if single_undefined (formats r) then ci_imageFormat ci = VK_FORMAT_B8G8R8A8_UNORM
                  else \<exists>sf\<in>set (formats r). ci_imageFormat ci = format sf)))
       \<and> (fst (find_queues (families r)) \<noteq> UINT32_MAX
            \<and> fst (find_queues (families r)) = snd (find_queues (families r)) \<longrightarrow>
           (\<exists>s'. initSurface r created s = Inr s'
              \<and> (if single_undefined (formats r) then colorFormat s' = VK_FORMAT_B8G8R8A8_UNORM
                  else \<exists>sf\<in>set (formats r). colorFormat s' = format sf
                         \<and> sc_colorSpace s' = colorSpace sf)))"
proof -
  have hd: "hd (formats r) \<in> set (formats r)" using fs by simp
  have ne: "families r \<noteq> []" if "fst (find_queues (families r)) \<noteq> UINT32_MAX"
    using that by (auto simp: find_queues_def)
  have fnd: "sf \<in> set (formats r)"
    if "find (\<lambda>sf. format sf = VK_FORMAT_B8G8R8A8_UNORM) (formats r) = Some sf" for sf
    using that by (auto simp: find_Some_iff)
  have a: "\<exists>ci. sample_main r w h = Inr ci
              \<and> (if single_undefined (formats r) then ci_imageFormat ci = VK_FORMAT_B8G8R8A8_UNORM
                  else \<exists>sf\<in>set (formats r). ci_imageFormat ci = format sf)"
    if "fst (find_queues (families r)) \<noteq> UINT32_MAX" "snd (find_queues (families r)) \<noteq> UINT32_MAX"
    using that fs hd by (auto simp: sample_main_cases)
  have b: "\<exists>s'. initSurface r created s = Inr s'
              \<and> (if single_undefined (formats r) then colorFormat s' = VK_FORMAT_B8G8R8A8_UNORM
                  else \<exists>sf\<in>set (formats r). colorFormat s' = format sf
                         \<and> sc_colorSpace s' = colorSpace sf)"
    if "fst (find_queues (families r)) \<noteq> UINT32_MAX"
      "fst (find_queues (families r)) = snd (find_queues (families r))"
  proof (cases "find (\<lambda>sf. format sf = VK_FORMAT_B8G8R8A8_UNORM) (formats r)")
    case None
    then show ?thesis using that fs hd ne by (auto simp: initSurface_cases)
  next
    case (Some sf)
    then show ?thesis using that fs fnd [OF Some] ne by (auto simp: initSurface_cases)
  qed
  from a b show ?thesis by blast
qed

theorem surface_format_selection_witness:
  "single_undefined (formats combined_report)
   \<and> ci_imageFormat (projr (sample_main combined_report 800 600)) = VK_FORMAT_B8G8R8A8_UNORM
   \<and> colorFormat (projr (initSurface combined_report 1 fresh_object)) = VK_FORMAT_B8G8R8A8_UNORM"
proof -
  have fs: "formats combined_report \<noteq> []" by (simp add: combined_report_def)
  have su: "single_undefined (formats combined_report)"
    by (simp add: combined_report_def single_undefined_def)
  have q: "fst (find_queues (families combined_report)) \<noteq> UINT32_MAX"
    "snd (find_queues (families combined_report)) \<noteq> UINT32_MAX"
    "fst (find_queues (families combined_report)) = snd (find_queues (families combined_report))"
    by (simp_all add: find_queues_combined UINT32_MAX_def)
  from surface_format_selection [OF fs, of 800 600 1 fresh_object] q su
  show ?thesis by auto
qed

subsection \<open>Fatal cases of initialization\<close>

text \<open>
  C8 as stated fails both ways. \<open>initSurface\<close> ends the process for a graphics-only and
  a present-only family although a graphics-capable and a present-capable family exist
  and formats and present modes are reported; and \<open>sample_main\<close> of test1.cpp does not
  end the process when no present mode is reported.
\<close>

theorem fatal_initialization_counterexample:
  "initSurface split_report 1 fresh_object =
     Inl (Exit ''Separate graphics and presenting queues are not supported yet!'')
   \<and> \<not> claimed_fatal split_report
   \<and> \<not> isl (sample_main modeless_report 800 600)
   \<and> claimed_fatal modeless_report"
proof -
  have "\<not> claimed_fatal split_report"
    by (simp add: claimed_fatal_def example_defs is_graphics_def is_present_def
        VK_QUEUE_GRAPHICS_BIT_def VK_TRUE_def)
  moreover have "claimed_fatal modeless_report"
    by (simp add: claimed_fatal_def modeless_report_def)
  ultimately show ?thesis
    by (simp add: initSurface_split_report sample_main_modeless)
qed

text \<open>
  C8 (amended). With every driver call returning success, the process ends instead of
  returning in exactly these cases, each with its own diagnostic. \<open>sample_main\<close> of
  test1.cpp: no graphics-capable or no present-capable family (message and \<open>exit(-1)\<close>),
  or no surface format (failed assertion). \<open>VulkanSwapChain::initSurface\<close>: no queue
  family at all (failed assertion), no graphics-capable or no present-capable family
  (\<open>exitFatal\<close>), both present but no family that is both (\<open>exitFatal\<close>), or no surface
  format (failed assertion). \<open>VulkanSwapChain::create\<close>: no present mode (failed
  assertion). A value \<open>Inl e\<close> is final: no branch retries.
\<close>

theorem fatal_initialization_cases:
  assumes len: "length (families r) \<le> UINT32_MAX"
  shows "(sample_main r w h = Inl e \<longleftrightarrow>
            e = Exit ''Could not find a queues for graphics and present''
              \<and> \<not> (list_ex is_graphics (families r) \<and> list_ex is_present (families r))
          \<or> e = Abort ''formatCount >= 1''
              \<and> list_ex is_graphics (families r) \<and> list_ex is_present (families r)
              \<and> formats r = [])
       \<and> (initSurface r created s = Inl e \<longleftrightarrow>
            e = Abort ''queueCount >= 1'' \<and> families r = []
          \<or> e = Exit ''Could not find a graphics and/or presenting queue!''
              \<and> families r \<noteq> []
              \<and> \<not> (list_ex is_graphics (families r) \<and> list_ex is_present (families r))
          \<or> e = Exit ''Separate graphics and presenting queues are not supported yet!''
              \<and> list_ex is_graphics (families r) \<and> list_ex is_present (families r)
              \<and> \<not> list_ex (\<lambda>q. is_graphics q \<and> is_present q) (families r)
          \<or> e = Abort ''formatCount > 0''
              \<and> list_ex (\<lambda>q. is_graphics q \<and> is_present q) (families r)
              \<and> formats r = [])
       \<and> (create r d s' w' h' v = Inl e \<longleftrightarrow>
            e = Abort ''presentModeCount > 0'' \<and> presentModes r = [])"
proof -
  let ?g = "list_ex is_graphics (families r)"
  let ?p = "list_ex is_present (families r)"
  let ?b = "list_ex (\<lambda>q. is_graphics q \<and> is_present q) (families r)"
  have sg: "fst (find_queues (families r)) = UINT32_MAX \<longleftrightarrow> \<not> ?g"
    by (simp add: find_queues_fst_sentinel [OF len] list_ex_set)
  have sp: "snd (find_queues (families r)) = UINT32_MAX \<longleftrightarrow> \<not> ?p"
    by (simp add: find_queues_snd_sentinel [OF len] list_ex_set)
  have df: "fst (find_queues (families r)) \<noteq> snd (find_queues (families r)) \<longleftrightarrow> \<not> ?b"
    if "?g" "?p"
    using find_queues_differ [OF len] that by (simp add: list_ex_set)
  have bg: "?g \<and> ?p" if "?b" using that by (auto simp: list_ex_set)
  have ne: "families r \<noteq> []" if "?g" using that by auto
  have a: "sample_main r w h = Inl e \<longleftrightarrow>
            e = Exit ''Could not find a queues for graphics and present'' \<and> \<not> (?g \<and> ?p)
          \<or> e = Abort ''formatCount >= 1'' \<and> ?g \<and> ?p \<and> formats r = []"
    unfolding sample_main_cases sg sp by auto
  have b: "initSurface r created s = Inl e \<longleftrightarrow>
            e = Abort ''queueCount >= 1'' \<and> families r = []
          \<or> e = Exit ''Could not find a graphics and/or presenting queue!''
              \<and> families r \<noteq> [] \<and> \<not> (?g \<and> ?p)
          \<or> e = Exit ''Separate graphics and presenting queues are not supported yet!''
              \<and> ?g \<and> ?p \<and> \<not> ?b
          \<or> e = Abort ''formatCount > 0'' \<and> ?b \<and> formats r = []"
  proof (cases "?g \<and> ?p")
    case True
    then have "families r \<noteq> []" using ne by blast
    with True df show ?thesis
      unfolding initSurface_cases sg sp by auto
  next
    case False
    then have "\<not> ?b" using bg by blast
    with False show ?thesis
      unfolding initSurface_cases sg sp by auto
  qed
  from a b show ?thesis by (simp only: create_fails_iff simp_thms)
qed

theorem fatal_initialization_cases_witness:
  "length (families split_report) \<le> UINT32_MAX
   \<and> initSurface split_report 1 fresh_object =
       Inl (Exit ''Separate graphics and presenting queues are not supported yet!'')
   \<and> sample_main split_report 800 600 \<noteq>
       Inl (Exit ''Could not find a queues for graphics and present'')"
proof -
  have len: "length (families split_report) \<le> UINT32_MAX"
    by (simp add: split_report_def UINT32_MAX_def)
  have g: "list_ex is_graphics (families split_report)"
    and p: "list_ex is_present (families split_report)"
    and b: "\<not> list_ex (\<lambda>q. is_graphics q \<and> is_present q) (families split_report)"
    by (simp_all add: example_defs is_graphics_def is_present_def VK_QUEUE_GRAPHICS_BIT_def
        VK_TRUE_def)
  have i: "initSurface split_report 1 fresh_object =
       Inl (Exit ''Separate graphics and presenting queues are not supported yet!'')"
    using fatal_initialization_cases [OF len, of 800 600
        "Exit ''Separate graphics and presenting queues are not supported yet!''" 1 fresh_object
        example_reply fresh_object 800 600 False] g p b
    by simp
  have m: "sample_main split_report 800 600 \<noteq>
       Inl (Exit ''Could not find a queues for graphics and present'')"
    using fatal_initialization_cases [OF len, of 800 600
        "Exit ''Could not find a queues for graphics and present''" 1 fresh_object
        example_reply fresh_object 800 600 False] g p
    by simp
  from len i m show ?thesis by simp
qed

subsection \<open>Static partition of the objects\<close>

text \<open>
  C9. When the constructor returns, \<open>numObjectsPerThread\<close> is 1024 divided by
  \<open>numThreads\<close>. The dispatch loops of a frame, started on empty queues, leave in the
  queue of worker \<open>t\<close> exactly the jobs \<open>(t, 0), ..., (t, numObjectsPerThread - 1)\<close>, so every
  (worker, slot) job is in one queue, once. The objects that
  \<open>prepareMultiThreadedRenderer\<close> assigns number at most \<open>numThreads\<close> times
  \<open>numObjectsPerThread\<close>, which is at most 1024.
\<close>

theorem static_partition:
  assumes "VulkanExample hardware_concurrency = Inr (numThreads, numObjectsPerThread)"
  shows "unat numObjectsPerThread = 1024 div unat numThreads
       \<and> dispatch_jobs (unat numThreads) (unat numObjectsPerThread) (replicate (unat numThreads) [])
           = map (\<lambda>t. map (\<lambda>i. (t, i)) [0..<unat numObjectsPerThread]) [0..<unat numThreads]
       \<and> distinct (concat (dispatch_jobs (unat numThreads) (unat numObjectsPerThread)
                             (replicate (unat numThreads) [])))
       \<and> sum_list (map (\<lambda>thread. length (objectData thread))
            (prepareMultiThreadedRenderer position allocated numThreads numObjectsPerThread))
           \<le> unat numThreads * unat numObjectsPerThread
       \<and> unat numThreads * unat numObjectsPerThread \<le> 1024"
proof -
  from assms have pos: "numThreads \<noteq> 0" and m: "numObjectsPerThread = 1024 div numThreads"
    by (auto simp: VulkanExample_def Let_def word_gt_0 split: if_splits)
  have u: "unat numObjectsPerThread = 1024 div unat numThreads"
    unfolding m by (simp add: unat_div)
  have le: "unat numThreads * unat numObjectsPerThread \<le> 1024"
    unfolding u by simp
  have "partitioned (unat numThreads) (unat numObjectsPerThread)
          (prepareMultiThreadedRenderer position allocated numThreads numObjectsPerThread)"
    unfolding prepareMultiThreadedRenderer_def by (rule prepare_threads_partitioned)
  from partitioned_total [OF this]
  have total: "sum_list (map (\<lambda>thread. length (objectData thread))
            (prepareMultiThreadedRenderer position allocated numThreads numObjectsPerThread))
           \<le> unat numThreads * unat numObjectsPerThread"
    by simp
  from u dispatch_jobs_queues dispatched_jobs_distinct total le show ?thesis
    by blast
qed

theorem static_partition_witness:
  "VulkanExample 4 = Inr (4, 256)
   \<and> unat (256 :: 32 word) = 1024 div unat (4 :: 32 word)
   \<and> dispatch_jobs (unat (4 :: 32 word)) (unat (256 :: 32 word)) (replicate (unat (4 :: 32 word)) [])
        = map (\<lambda>t. map (\<lambda>i. (t, i)) [0..<unat (256 :: 32 word)]) [0..<unat (4 :: 32 word)]"
proof -
  have c: "VulkanExample 4 = Inr (4, 256)"
    by (simp add: VulkanExample_def)
  from static_partition [OF c] c show ?thesis by blast
qed

subsection \<open>Cleanup\<close>

text \<open>
  C10. After one call of \<open>cleanup\<close> the swapchain and the surface handle are both null,
  and a second call makes no driver call at all (neither the image-view loop nor the
  swapchain and surface destruction runs) and returns the object unchanged.
\<close>

theorem cleanup_idempotent:
  "swapChain (fst (cleanup s)) = VK_NULL_HANDLE
   \<and> surface (fst (cleanup s)) = VK_NULL_HANDLE
   \<and> cleanup (fst (cleanup s)) = (fst (cleanup s), [])"
  by (simp add: cleanup_def Let_def)



end
